theory Spec2Isabelle
  imports Complex_Main
begin

section \<open>StatSector combat entities\<close>

text \<open>
  A shallow embedding of \<^verbatim>\<open>src/combat_entities.py\<close>: the armor grid, shots, ships, the
  ammunition tracker and the gun hit sequence of a weapon.

  Numbers. The source computes with numpy \<^verbatim>\<open>float64\<close> arrays (armor grid, shots) and with
  \<^verbatim>\<open>decimal.Decimal\<close> under a context precision of 6 digits (weapons, ammunition tracker).
  Both are modelled as exact rationals: the rounding of a result to the float or to the
  decimal context is not part of this model. A division by zero, which numpy answers with
  \<^verbatim>\<open>inf\<close> or \<^verbatim>\<open>nan\<close> and \<^verbatim>\<open>decimal\<close> with an exception, is an explicit outcome of the
  model, never HOL's \<open>x / 0 = 0\<close>.
\<close>

subsection \<open>Outcomes\<close>

datatype error =
    KeyError
  | TypeError
  | ValueError
  | IndexError
  | NameError
  | UnboundLocalError
  | DivisionByZero
  | NonFinite

text \<open>
  \<open>NonFinite\<close> is not a Python exception: it stands for a numpy result \<^verbatim>\<open>inf\<close> or
  \<^verbatim>\<open>nan\<close>, which has no rational value. \<open>DivisionByZero\<close> stands for both signals the
  \<^verbatim>\<open>decimal\<close> module raises on a zero divisor.
\<close>

definition bind_err :: "error + 'a \<Rightarrow> ('a \<Rightarrow> error + 'b) \<Rightarrow> error + 'b" where
  "bind_err m f = (case m of Inl e \<Rightarrow> Inl e | Inr x \<Rightarrow> f x)"

fun sequence_err :: "(error + 'a) list \<Rightarrow> error + 'a list" where
  "sequence_err [] = Inr []"
| "sequence_err (m # ms) =
     (case m of
        Inl e \<Rightarrow> Inl e
      | Inr x \<Rightarrow> (case sequence_err ms of Inl e \<Rightarrow> Inl e | Inr xs \<Rightarrow> Inr (x # xs)))"

text \<open>Python's \<^verbatim>\<open>int(x)\<close> on a number: truncation towards zero.\<close>

definition py_int :: "rat \<Rightarrow> int" where
  "py_int x = (if 0 \<le> x then \<lfloor>x\<rfloor> else \<lceil>x\<rceil>)"

subsection \<open>Two-dimensional arrays\<close>

text \<open>
  A numpy array of two dimensions is a list of rows. \<open>shape2 r c m\<close> says that \<open>m\<close> has
  \<open>r\<close> rows of \<open>c\<close> entries each.
\<close>

definition shape2 :: "nat \<Rightarrow> nat \<Rightarrow> rat list list \<Rightarrow> bool" where
  "shape2 r c m = (length m = r \<and> list_all (\<lambda>row. length row = c) m)"

definition sum2 :: "rat list list \<Rightarrow> rat" where
  "sum2 m = sum_list (map sum_list m)"

definition mul2 :: "rat list list \<Rightarrow> rat list list \<Rightarrow> rat list list" where
  "mul2 a b = map2 (\<lambda>ra rb. map2 (*) ra rb) a b"

definition scale2 :: "rat \<Rightarrow> rat list list \<Rightarrow> rat list list" where
  "scale2 k m = map (map (\<lambda>x. k * x)) m"

text \<open>The slice \<^verbatim>\<open>cells[0:5, i:i+5]\<close>: slicing never fails, it returns what is there.\<close>

definition window :: "rat list list \<Rightarrow> nat \<Rightarrow> rat list list" where
  "window cs i = map (\<lambda>row. take 5 (drop i row)) (take 5 cs)"

text \<open>
  \<^verbatim>\<open>cells[0:5, i:i+5] -= k\<close> for a 5 by 5 array \<open>k\<close>, on an array whose slice is 5 by 5:
  the slice is replaced by the elementwise difference, everything else stays.
\<close>

definition sub_window :: "rat list list \<Rightarrow> nat \<Rightarrow> rat list list \<Rightarrow> rat list list" where
  "sub_window cs i k =
     map2 (\<lambda>row krow. take i row @ map2 (-) (take 5 (drop i row)) krow @ drop (i + 5) row)
       (take 5 cs) k
     @ drop 5 cs"

subsection \<open>ArmorGrid\<close>

definition MINIMUM_ARMOR_FACTOR :: rat where
  "MINIMUM_ARMOR_FACTOR = 5 / 100"

definition MINIMUM_DAMAGE_FACTOR :: rat where
  "MINIMUM_DAMAGE_FACTOR = 15 / 100"

definition ARMOR_RATING_PER_CELL_FACTOR :: rat where
  "ARMOR_RATING_PER_CELL_FACTOR = 1 / 15"

definition POOLING_WEIGHTS :: "rat list list" where
  "POOLING_WEIGHTS =
     [[0, 1/2, 1/2, 1/2, 0],
      [1/2, 1, 1, 1, 1/2],
      [1/2, 1, 1, 1, 1/2],
      [1/2, 1, 1, 1, 1/2],
      [0, 1/2, 1/2, 1/2, 0]]"

definition DAMAGE_DISTRIBUTION :: "rat list list" where
  "DAMAGE_DISTRIBUTION = scale2 ARMOR_RATING_PER_CELL_FACTOR POOLING_WEIGHTS"

record armor_grid =
  minimum_armor :: rat
  cells :: "rat list list"
  bounds :: "rat list"

text \<open>\<^verbatim>\<open>ArmorGrid.__init__\<close>; the width is a number of cells.\<close>

definition ArmorGrid :: "rat \<Rightarrow> rat \<Rightarrow> nat \<Rightarrow> armor_grid" where
  "ArmorGrid armor_rating cell_size width =
     (let armor_per_cell = armor_rating * ARMOR_RATING_PER_CELL_FACTOR in
      \<lparr>minimum_armor = MINIMUM_ARMOR_FACTOR * armor_rating,
       cells = replicate 5 (replicate (width + 4) armor_per_cell),
       bounds = map (\<lambda>i. of_nat i * cell_size) [0..<width]\<rparr>)"

text \<open>
  Broadcasting against an array of 5 by 5: an axis of length 1 is repeated 5 times, an axis
  of length 5 stays.
\<close>

definition stretch :: "'a list \<Rightarrow> 'a list" where
  "stretch xs = (if length xs = 1 then replicate 5 (hd xs) else xs)"

text \<open>
  \<^verbatim>\<open>ArmorGrid._pool\<close>. The product of the 5 by 5 weights with the slice is elementwise
  after broadcasting: each axis of the slice must have length 5 or 1, and for any other
  slice numpy raises \<^verbatim>\<open>ValueError\<close>. On a grid of 5 rows the indices that
  \<^verbatim>\<open>_pooled_values\<close> passes give slices of 5 by 5.
\<close>

definition pool :: "armor_grid \<Rightarrow> nat \<Rightarrow> error + rat" where
  "pool g index =
     (let w = window (cells g) index
      in if (length w = 5 \<or> length w = 1)
            \<and> (list_all (\<lambda>row. length row = 5) w \<or> list_all (\<lambda>row. length row = 1) w)
         then Inr (sum2 (mul2 POOLING_WEIGHTS (stretch (map stretch w))))
         else Inl ValueError)"

text \<open>
  \<^verbatim>\<open>ArmorGrid._pooled_values\<close>: one pooled value for each entry of
  \<^verbatim>\<open>cells[2, 2:-2]\<close>, floored at the minimum armor.
\<close>

definition pooled_values :: "armor_grid \<Rightarrow> error + rat list" where
  "pooled_values g =
     (if length (cells g) \<le> 2 then Inl IndexError
      else bind_err
        (sequence_err (map (pool g) [0..<length (cells g ! 2) - 4]))
        (\<lambda>ps. Inr (map (max (minimum_armor g)) ps)))"

text \<open>
  One entry of \<^verbatim>\<open>ArmorGrid.damage_factors\<close>. numpy divides floats by zero without an
  exception. For a hit strength of 0 and a pooled value other than 0 the quotient is
  \<^verbatim>\<open>inf\<close> or \<^verbatim>\<open>-inf\<close>, its inverse after adding 1 is 0, and the factor is the minimum
  damage factor; for a pooled value of 0 the quotient \<^verbatim>\<open>0/0\<close> is \<^verbatim>\<open>nan\<close> and so is the
  factor. Where \<open>1 + pooled / hit_strength\<close> is 0 the factor is \<^verbatim>\<open>inf\<close>. The factors
  \<^verbatim>\<open>nan\<close> and \<^verbatim>\<open>inf\<close> are the outcome \<open>NonFinite\<close>.
\<close>

definition damage_factor :: "rat \<Rightarrow> rat \<Rightarrow> error + rat" where
  "damage_factor hit_strength pooled =
     (if hit_strength = 0
      then (if pooled = 0 then Inl NonFinite else Inr MINIMUM_DAMAGE_FACTOR)
      else if 1 + pooled / hit_strength = 0 then Inl NonFinite
      else Inr (max MINIMUM_DAMAGE_FACTOR (1 / (1 + pooled / hit_strength))))"

definition damage_factors :: "armor_grid \<Rightarrow> rat \<Rightarrow> error + rat list" where
  "damage_factors g hit_strength =
     bind_err (pooled_values g)
       (\<lambda>ps. sequence_err (map (damage_factor hit_strength) ps))"

text \<open>A grid as \<^verbatim>\<open>ArmorGrid.__init__\<close> lays it out: 5 rows, the width plus 4 columns.\<close>

definition grid_shape :: "nat \<Rightarrow> armor_grid \<Rightarrow> bool" where
  "grid_shape width g = shape2 5 (width + 4) (cells g)"

definition cells_nonneg :: "armor_grid \<Rightarrow> bool" where
  "cells_nonneg g = list_all (list_all (\<lambda>c. 0 \<le> c)) (cells g)"

subsection \<open>Weapon\<close>

datatype mode = GUN | MISSILE | BURST_BEAM | CONTINUOUS_BEAM

text \<open>\<^verbatim>\<open>Weapon.ammo\<close> is an integer or the string \<^verbatim>\<open>"UNLIMITED"\<close>.\<close>

datatype ammo_count = Finite int | UNLIMITED

text \<open>
  A weapon record of the database is a dictionary from attribute names to numbers or
  strings.
\<close>

datatype val = Num rat | Str string

type_synonym record_data = "string \<rightharpoonup> val"

text \<open>\<^verbatim>\<open>data[k]\<close>.\<close>

definition get_item :: "record_data \<Rightarrow> string \<Rightarrow> error + val" where
  "get_item data k = (case data k of None \<Rightarrow> Inl KeyError | Some v \<Rightarrow> Inr v)"

text \<open>
  \<^verbatim>\<open>data[k]\<close> for an attribute the weapon computes with. The loader types these columns
  as numbers. A string there is reported at the lookup as \<open>TypeError\<close>; Python would keep
  the string and raise at its first use in arithmetic.
\<close>

definition num_item :: "record_data \<Rightarrow> string \<Rightarrow> error + rat" where
  "num_item data k =
     (case data k of
        None \<Rightarrow> Inl KeyError
      | Some (Num x) \<Rightarrow> Inr x
      | Some (Str s) \<Rightarrow> Inl TypeError)"

text \<open>\<^verbatim>\<open>data[k] if k in data else d\<close>, for a numeric attribute.\<close>

definition num_item_or :: "record_data \<Rightarrow> string \<Rightarrow> rat \<Rightarrow> error + rat" where
  "num_item_or data k d =
     (case data k of
        None \<Rightarrow> Inr d
      | Some (Num x) \<Rightarrow> Inr x
      | Some (Str s) \<Rightarrow> Inl TypeError)"

text \<open>\<^verbatim>\<open>v in data\<close>: the keys are strings, and a number equals no string.\<close>

definition val_in :: "val \<Rightarrow> record_data \<Rightarrow> bool" where
  "val_in v data = (case v of Str s \<Rightarrow> data s \<noteq> None | Num x \<Rightarrow> False)"

text \<open>The truth value of a string: the empty string alone is false.\<close>

definition truthy :: "string \<Rightarrow> bool" where
  "truthy s = (s \<noteq> [])"

text \<open>
  \<^verbatim>\<open>Decimal(0.05)\<close> is the exact value of the float nearest to 0.05, which is
  3602879701896397 / 2^56.
\<close>

definition MINIMUM_REFIRE_DELAY :: rat where
  "MINIMUM_REFIRE_DELAY = 3602879701896397 / 72057594037927936"

record weapon =
  charge_up :: rat
  charge_down :: rat
  burst_size :: rat
  burst_delay :: rat
  ammo :: ammo_count
  ammo_regen :: rat
  reload_size :: rat
  proj_speed :: rat
  mode :: "mode option"

text \<open>
  The mode of \<^verbatim>\<open>Weapon.__init__\<close>, \<open>None\<close> for Python's \<^verbatim>\<open>None\<close>. The test of the type
  is \<^verbatim>\<open>data["type"] == "BALLISTIC" or "ENERGY"\<close>: the disjunction of a comparison and of
  a string.
\<close>

definition determine_mode :: "record_data \<Rightarrow> error + mode option" where
  "determine_mode data =
     bind_err (get_item data ''specClass'') (\<lambda>spec_class.
       if spec_class = Str ''projectile'' then
         bind_err (get_item data ''type'') (\<lambda>ty.
           if ty = Str ''BALLISTIC'' \<or> truthy ''ENERGY'' then Inr (Some GUN)
           else Inr (Some MISSILE))
       else if spec_class = Str ''BEAM'' then
         bind_err (get_item data ''damage/shot'') (\<lambda>ds.
           if val_in ds data then Inr (Some BURST_BEAM)
           else Inr (Some CONTINUOUS_BEAM))
       else Inr None)"

text \<open>
  \<^verbatim>\<open>self.mode == "BEAM"\<close>: the mode is \<^verbatim>\<open>None\<close> or one of the four mode strings, none of
  which is \<^verbatim>\<open>"BEAM"\<close>.
\<close>

definition mode_is_BEAM :: "mode option \<Rightarrow> bool" where
  "mode_is_BEAM m = False"

text \<open>\<^verbatim>\<open>Weapon.__init__\<close>, in the order of the source.\<close>

definition Weapon :: "record_data \<Rightarrow> error + weapon" where
  "Weapon data =
     bind_err (num_item data ''chargeup'') (\<lambda>cu.
     bind_err (num_item data ''chargedown'') (\<lambda>cd.
     bind_err (num_item data ''burst size'') (\<lambda>bs.
     bind_err (num_item data ''burst delay'') (\<lambda>bd.
     bind_err (case data ''ammo'' of
                 None \<Rightarrow> Inr UNLIMITED
               | Some (Num x) \<Rightarrow> Inr (Finite (py_int x))
               | Some (Str s) \<Rightarrow> Inl TypeError) (\<lambda>am.
     bind_err (num_item_or data ''ammo regen'' 0) (\<lambda>ar.
     bind_err (num_item_or data ''reload size'' 0) (\<lambda>rs.
     bind_err (num_item data ''proj speed'') (\<lambda>ps.
     bind_err (determine_mode data) (\<lambda>m.
       let bd' = (if 0 < bd \<or> mode_is_BEAM m then max bd MINIMUM_REFIRE_DELAY else bd);
           bs' = (if m = Some GUN then of_int (py_int bs) else bs);
           cd' = (if m = Some GUN then max cd MINIMUM_REFIRE_DELAY else cd)
       in Inr \<lparr>charge_up = cu, charge_down = cd', burst_size = bs', burst_delay = bd',
               ammo = am, ammo_regen = ar, reload_size = rs, proj_speed = ps,
               mode = m\<rparr>)))))))))"

subsection \<open>Shot and Ship\<close>

text \<open>
  The damage type is a key of \<^verbatim>\<open>DAMAGE_TYPE_DAMAGE_FACTORS\<close>; the four keys are the type.
\<close>

datatype damage_type = KINETIC | HIGH_EXPLOSIVE | FRAGMENTATION | ENERGY

fun shield_factor :: "damage_type \<Rightarrow> rat" where
  "shield_factor KINETIC = 2"
| "shield_factor HIGH_EXPLOSIVE = 1/2"
| "shield_factor FRAGMENTATION = 1/4"
| "shield_factor ENERGY = 1"

fun armor_factor :: "damage_type \<Rightarrow> rat" where
  "armor_factor KINETIC = 1/2"
| "armor_factor HIGH_EXPLOSIVE = 2"
| "armor_factor FRAGMENTATION = 1/4"
| "armor_factor ENERGY = 1"

record shot =
  damage :: rat
  armor_damage_factor :: rat
  shield_damage :: rat
  armor_damage :: rat
  strength :: rat
  flux_hard :: bool
  probabilities :: "rat list option"
  expected_armor_damage :: "rat list option"

text \<open>\<^verbatim>\<open>Shot.__init__\<close>; the two caches start as \<^verbatim>\<open>None\<close>.\<close>

definition Shot :: "rat \<Rightarrow> damage_type \<Rightarrow> bool \<Rightarrow> bool \<Rightarrow> shot" where
  "Shot dmg dtype beam fh =
     \<lparr>damage = dmg,
      armor_damage_factor = armor_factor dtype,
      shield_damage = dmg * shield_factor dtype,
      armor_damage = dmg * armor_factor dtype,
      strength = dmg * armor_factor dtype * (if beam then 1/2 else 1),
      flux_hard = fh,
      probabilities = None,
      expected_armor_damage = None\<rparr>"

text \<open>
  The state of a \<^verbatim>\<open>Ship\<close>; its construction from a database entry is not modelled.
  The field \<^verbatim>\<open>hull\<close> is \<open>ship_hull\<close> and the field \<^verbatim>\<open>armor_grid\<close> is \<open>grid\<close> here.
\<close>

record ship =
  ship_hull :: rat
  flux_capacity :: rat
  flux_dissipation :: rat
  grid :: armor_grid
  weapons :: "weapon list"
  hard_flux :: rat
  soft_flux :: rat

definition will_overload :: "ship \<Rightarrow> bool" where
  "will_overload sh = (flux_capacity sh < hard_flux sh \<or> flux_capacity sh < soft_flux sh)"

text \<open>The property \<^verbatim>\<open>Ship.overloaded\<close>.\<close>

definition is_overloaded :: "ship \<Rightarrow> bool" where
  "is_overloaded sh = will_overload sh"

definition shield_up :: "ship \<Rightarrow> bool" where
  "shield_up sh = (\<not> is_overloaded sh)"

text \<open>
  \<^verbatim>\<open>np.vectorize(f)(xs)\<close> for a function from floats to floats, as a hit probability
  is: numpy refuses an array of size 0, since it calls \<open>f\<close> on the first entry to find the
  type of the result. (A function whose first result is an \<^verbatim>\<open>int\<close> would get an array of
  integers and its later results truncated; the type of \<open>f\<close> here has no such function.)
\<close>

definition vectorize :: "(rat \<Rightarrow> rat) \<Rightarrow> rat list \<Rightarrow> error + rat list" where
  "vectorize f xs = (if xs = [] then Inl ValueError else Inr (map f xs))"

text \<open>
  \<^verbatim>\<open>Shot.distribute\<close>. The shot and the ship are objects passed by reference: the model
  returns both as the call leaves them.
\<close>

definition distribute :: "shot \<Rightarrow> ship \<Rightarrow> (rat \<Rightarrow> rat) \<Rightarrow> error + shot \<times> ship" where
  "distribute s sh distribution =
     bind_err (vectorize distribution (bounds (grid sh))) (\<lambda>ps.
       let s1 = s\<lparr>probabilities := Some ps\<rparr>;
           s2 = s1\<lparr>expected_armor_damage :=
                     Some (map (\<lambda>p. armor_damage s1 * p) (the (probabilities s1)))\<rparr>
       in Inr (s2, sh))"

text \<open>
  \<^verbatim>\<open>Shot.damage_armor_grid\<close>. The subtraction in place needs a slice of 5 rows and 5
  columns; for any other slice numpy raises \<^verbatim>\<open>ValueError\<close>.
\<close>

definition damage_armor_grid :: "armor_grid \<Rightarrow> rat \<Rightarrow> nat \<Rightarrow> error + armor_grid" where
  "damage_armor_grid g dmg i =
     (if shape2 5 5 (window (cells g) i)
      then Inr (g\<lparr>cells := sub_window (cells g) i (scale2 dmg DAMAGE_DISTRIBUTION)\<rparr>)
      else Inl ValueError)"

text \<open>The product of two one-dimensional arrays, with numpy's broadcasting of length 1.\<close>

definition mul_broadcast :: "rat list \<Rightarrow> rat list \<Rightarrow> error + rat list" where
  "mul_broadcast a b =
     (if length a = length b then Inr (map2 (*) a b)
      else if length a = 1 then Inr (map (\<lambda>y. hd a * y) b)
      else if length b = 1 then Inr (map (\<lambda>x. x * hd b) a)
      else Inl ValueError)"

text \<open>\<^verbatim>\<open>for i, damage in enumerate(damage_distribution): damage_armor_grid(grid, damage, i)\<close>\<close>

fun damage_loop :: "armor_grid \<Rightarrow> nat \<Rightarrow> rat list \<Rightarrow> error + armor_grid" where
  "damage_loop g i [] = Inr g"
| "damage_loop g i (d # ds) =
     bind_err (damage_armor_grid g d i) (\<lambda>g'. damage_loop g' (Suc i) ds)"

text \<open>\<^verbatim>\<open>np.sum(cells[cells < 0])\<close>\<close>

definition negative_sum :: "rat list list \<Rightarrow> rat" where
  "negative_sum cs = sum_list (filter (\<lambda>c. c < 0) (concat cs))"

text \<open>
  \<^verbatim>\<open>Shot.damage_ship\<close>. A shot that was never distributed has \<^verbatim>\<open>None\<close> for its expected
  armor damage, and the product raises \<^verbatim>\<open>TypeError\<close>. An exception leaves the grid as
  damaged so far; the model reports the exception alone.
\<close>

definition damage_ship :: "shot \<Rightarrow> ship \<Rightarrow> error + ship" where
  "damage_ship s sh =
     bind_err (damage_factors (grid sh) (strength s)) (\<lambda>fs.
       case expected_armor_damage s of
         None \<Rightarrow> Inl TypeError
       | Some ead \<Rightarrow>
           bind_err (mul_broadcast ead fs) (\<lambda>damage_distribution.
           bind_err (damage_loop (grid sh) 0 damage_distribution) (\<lambda>g.
             if armor_damage_factor s = 0 then Inl NonFinite
             else
               let hull_damage = negative_sum (cells g) / armor_damage_factor s
               in Inr (sh\<lparr>ship_hull := max 0 (ship_hull sh + hull_damage),
                          grid := g\<lparr>cells := map (map (max 0)) (cells g)\<rparr>\<rparr>))))"

subsection \<open>AmmoTracker\<close>

text \<open>
  The field \<^verbatim>\<open>ammo\<close> of the tracker is \<open>cur_ammo\<close> here; \<open>ammo\<close> is the field of the weapon.
  The amount regenerated is a whole number: it starts at 0 and grows by values of
  \<^verbatim>\<open>int(...)\<close>.
\<close>

record ammo_tracker =
  weapon :: weapon
  cur_ammo :: ammo_count
  ammo_regen_time :: rat
  ammo_regenerated :: int
  ammo_regen_timer :: rat
  regenerating_ammo :: bool

text \<open>\<^verbatim>\<open>AmmoTracker.__init__\<close>: \<^verbatim>\<open>1 / weapon.ammo_regen\<close> raises on a zero regeneration.\<close>

definition AmmoTracker :: "weapon \<Rightarrow> error + ammo_tracker" where
  "AmmoTracker w =
     (if ammo_regen w = 0 then Inl DivisionByZero
      else Inr \<lparr>weapon = w,
                cur_ammo = ammo w,
                ammo_regen_time = 1 / ammo_regen w,
                ammo_regenerated = 0,
                ammo_regen_timer = 0,
                regenerating_ammo = False\<rparr>)"

definition should_regenerate_ammo :: "ammo_tracker \<Rightarrow> rat \<Rightarrow> bool" where
  "should_regenerate_ammo tr t = (ammo_regen_time tr \<le> t - ammo_regen_timer tr)"

text \<open>
  \<^verbatim>\<open>self.ammo += self.ammo_regenerated\<close> adds to an integer and raises \<^verbatim>\<open>TypeError\<close> on
  the string.
\<close>

definition add_ammo :: "ammo_count \<Rightarrow> int \<Rightarrow> error + ammo_count" where
  "add_ammo a n = (case a of Finite k \<Rightarrow> Inr (Finite (k + n)) | UNLIMITED \<Rightarrow> Inl TypeError)"

text \<open>
  \<^verbatim>\<open>self.ammo >= self.weapon.ammo\<close>: two integers, or two strings (the same string
  \<^verbatim>\<open>"UNLIMITED"\<close>); an integer and a string do not compare.
\<close>

definition ammo_ge :: "ammo_count \<Rightarrow> ammo_count \<Rightarrow> error + bool" where
  "ammo_ge a b =
     (case (a, b) of
        (Finite x, Finite y) \<Rightarrow> Inr (y \<le> x)
      | (UNLIMITED, UNLIMITED) \<Rightarrow> Inr True
      | _ \<Rightarrow> Inl TypeError)"

text \<open>\<^verbatim>\<open>AmmoTracker.regenerate_ammo\<close>, statement by statement.\<close>

definition regenerate_ammo :: "ammo_tracker \<Rightarrow> rat \<Rightarrow> error + ammo_tracker" where
  "regenerate_ammo tr t =
     (let w = weapon tr;
          amount = py_int (ammo_regen w * (t - ammo_regen_timer tr));
          tr1 = tr\<lparr>ammo_regenerated := ammo_regenerated tr + amount\<rparr>
      in if ammo_regen w = 0 then Inl DivisionByZero
         else
           let tr2 = tr1\<lparr>ammo_regen_timer :=
                           ammo_regen_timer tr1 + of_int amount / ammo_regen w\<rparr>
           in bind_err
                (if reload_size w \<le> of_int (ammo_regenerated tr2)
                 then bind_err (add_ammo (cur_ammo tr2) (ammo_regenerated tr2))
                        (\<lambda>a. Inr (tr2\<lparr>cur_ammo := a, ammo_regenerated := 0\<rparr>))
                 else Inr tr2)
                (\<lambda>tr3. bind_err (ammo_ge (cur_ammo tr3) (ammo w))
                   (\<lambda>full. if full
                            then Inr (tr3\<lparr>cur_ammo := ammo w, regenerating_ammo := False\<rparr>)
                            else Inr tr3)))"

subsection \<open>The gun hit sequence\<close>

text \<open>
  The locals of \<^verbatim>\<open>Weapon._gun_hit_sequence\<close> that change: the simulated time, the list
  \<^verbatim>\<open>times\<close> of recorded hits (\<open>hit_times\<close> here) and the tracker.
\<close>

record gun_state =
  time :: rat
  hit_times :: "rat list"
  tracker :: ammo_tracker

definition time_limit :: rat where
  "time_limit = 100"

definition time_interval :: rat where
  "time_interval = 1"

definition time_intervals :: nat where
  "time_intervals = nat (py_int (time_limit / time_interval))"

text \<open>
  \<^verbatim>\<open>if ammo_tracker.should_regenerate_ammo(time): ammo_tracker.regenerate_ammo(time)\<close>
\<close>

definition regenerate_if_due :: "gun_state \<Rightarrow> error + gun_state" where
  "regenerate_if_due st =
     (if should_regenerate_ammo (tracker st) (time st)
      then bind_err (regenerate_ammo (tracker st) (time st))
             (\<lambda>tr. Inr (st\<lparr>tracker := tr\<rparr>))
      else Inr st)"

text \<open>
  One pass of the body of \<^verbatim>\<open>_simultaneous_shots\<close>. The string \<^verbatim>\<open>"UNLIMITED"\<close> is not
  equal to 0, and \<^verbatim>\<open>ammo -= 1\<close> raises \<^verbatim>\<open>TypeError\<close> on it.
\<close>

definition simultaneous_shot :: "rat \<Rightarrow> gun_state \<Rightarrow> error + gun_state" where
  "simultaneous_shot travel_time st =
     (case cur_ammo (tracker st) of
        UNLIMITED \<Rightarrow> Inl TypeError
      | Finite a \<Rightarrow>
          if a = 0 then Inr st
          else
            let tr1 = (tracker st)\<lparr>cur_ammo := Finite (a - 1)\<rparr>;
                tr2 = (if \<not> regenerating_ammo tr1
                       then tr1\<lparr>ammo_regen_timer := time st, regenerating_ammo := True\<rparr>
                       else tr1)
            in Inr (st\<lparr>hit_times := hit_times st @ [time st + travel_time],
                       tracker := tr2\<rparr>))"

text \<open>\<^verbatim>\<open>for i in range(self.burst_size)\<close> around it.\<close>

fun simultaneous_shots :: "rat \<Rightarrow> nat \<Rightarrow> gun_state \<Rightarrow> error + gun_state" where
  "simultaneous_shots travel_time 0 st = Inr st"
| "simultaneous_shots travel_time (Suc n) st =
     bind_err (simultaneous_shot travel_time st) (simultaneous_shots travel_time n)"

text \<open>
  \<^verbatim>\<open>_successive_shots\<close> assigns to \<^verbatim>\<open>time\<close> (\<^verbatim>\<open>time += self.burst_delay\<close>) with no
  \<^verbatim>\<open>nonlocal\<close> declaration, so \<^verbatim>\<open>time\<close> is a local of the nested function, unbound when
  \<^verbatim>\<open>times.append(time + travel_time)\<close> reads it: the first pass that does not
  \<^verbatim>\<open>continue\<close> raises \<^verbatim>\<open>UnboundLocalError\<close>, and the rest of the body never runs.
\<close>

fun successive_shots :: "nat \<Rightarrow> gun_state \<Rightarrow> error + gun_state" where
  "successive_shots 0 st = Inr st"
| "successive_shots (Suc n) st =
     (if cur_ammo (tracker st) = Finite 0 then successive_shots n st
      else Inl UnboundLocalError)"

text \<open>
  \<^verbatim>\<open>shot_pattern()\<close>. \<^verbatim>\<open>_gun_hit_sequence\<close> runs for a weapon in mode GUN, whose burst size
  \<^verbatim>\<open>__init__\<close> has made an integer; a negative range is empty.
\<close>

definition shot_pattern :: "weapon \<Rightarrow> rat \<Rightarrow> gun_state \<Rightarrow> error + gun_state" where
  "shot_pattern w travel_time st =
     (if burst_delay w = 0
      then simultaneous_shots travel_time (nat (py_int (burst_size w))) st
      else successive_shots (nat (py_int (burst_size w))) st)"

text \<open>The body of \<^verbatim>\<open>while time < time_limit\<close>.\<close>

definition gun_cycle :: "weapon \<Rightarrow> rat \<Rightarrow> gun_state \<Rightarrow> error + gun_state" where
  "gun_cycle w travel_time st =
     bind_err (regenerate_if_due (st\<lparr>time := time st + charge_up w\<rparr>)) (\<lambda>st1.
     bind_err (shot_pattern w travel_time st1) (\<lambda>st2.
       regenerate_if_due (st2\<lparr>time := time st2 + charge_down w\<rparr>)))"

text \<open>The loop itself; \<open>None\<close> is a run that never leaves the loop.\<close>

partial_function (option) gun_loop ::
  "weapon \<Rightarrow> rat \<Rightarrow> gun_state \<Rightarrow> (error + gun_state) option" where
  "gun_loop w travel_time st =
     (if time st < time_limit
      then (case gun_cycle w travel_time st of
              Inl e \<Rightarrow> Some (Inl e)
            | Inr st' \<Rightarrow> gun_loop w travel_time st')
      else Some (Inr st))"

declare gun_loop.simps [code]

text \<open>
  The hit counts that \<^verbatim>\<open>_gun_hit_sequence\<close> returns from the recorded times: one entry
  for \<^verbatim>\<open>0 <= int(t) <= time_interval\<close>, then one for each \<open>i\<close> of
  \<^verbatim>\<open>range(1, time_intervals)\<close> with \<^verbatim>\<open>(i - 1) * time_interval < int(t) <= i * time_interval\<close>.
\<close>

definition hit_buckets :: "rat list \<Rightarrow> nat list" where
  "hit_buckets ts =
     [length (filter (\<lambda>t. 0 \<le> py_int t \<and> of_int (py_int t) \<le> time_interval) ts)]
     @ map (\<lambda>i. length (filter (\<lambda>t. (of_nat i - 1) * time_interval < of_int (py_int t)
                                     \<and> of_int (py_int t) \<le> of_nat i * time_interval) ts))
         [1..<time_intervals]"

text \<open>
  The run of \<^verbatim>\<open>_gun_hit_sequence\<close> up to its \<^verbatim>\<open>return\<close>: the travel time
  \<^verbatim>\<open>Decimal(distance / self.proj_speed)\<close>, the tracker, the loop. The result is the list
  \<^verbatim>\<open>times\<close> at the end of the loop.
\<close>

definition gun_hit_times :: "weapon \<Rightarrow> rat \<Rightarrow> (error + rat list) option" where
  "gun_hit_times w distance =
     (if proj_speed w = 0 then Some (Inl DivisionByZero)
      else
        let travel_time = distance / proj_speed w
        in case AmmoTracker w of
             Inl e \<Rightarrow> Some (Inl e)
           | Inr tr \<Rightarrow>
               map_option (map_sum id hit_times)
                 (gun_loop w travel_time \<lparr>time = 0, hit_times = [], tracker = tr\<rparr>))"

text \<open>\<^verbatim>\<open>Weapon._gun_hit_sequence\<close>.\<close>

definition gun_hit_sequence :: "weapon \<Rightarrow> rat \<Rightarrow> (error + nat list) option" where
  "gun_hit_sequence w distance = map_option (map_sum id hit_buckets) (gun_hit_times w distance)"

text \<open>
  \<^verbatim>\<open>Weapon._hit_sequence\<close>. Both beam branches read \<^verbatim>\<open>beam_tick\<close>, a name that nothing
  defines, in their first statement; any other mode falls off the end of the function and
  returns \<^verbatim>\<open>None\<close>.
\<close>

definition hit_sequence :: "weapon \<Rightarrow> rat \<Rightarrow> (error + nat list option) option" where
  "hit_sequence w distance =
     (if mode w = Some GUN then map_option (map_sum id Some) (gun_hit_sequence w distance)
      else if mode w = Some CONTINUOUS_BEAM then Some (Inl NameError)
      else if mode w = Some BURST_BEAM then Some (Inl NameError)
      else Some (Inr None))"

subsection \<open>Auxiliary notions\<close>

text \<open>
  The entry of \<^verbatim>\<open>_pooled_values\<close> for cell \<open>i\<close> on a grid where the pooling succeeds: the
  weighted sum of the window of the cell, floored at the minimum armor.
\<close>

definition pooled :: "armor_grid \<Rightarrow> nat \<Rightarrow> rat" where
  "pooled g i = max (minimum_armor g) (sum2 (mul2 POOLING_WEIGHTS (window (cells g) i)))"

text \<open>
  What \<^verbatim>\<open>damage_armor_grid\<close> at index \<open>i\<close> with damage \<open>d\<close> takes from the cell in row \<open>r\<close>
  and column \<open>c\<close>: the entry of \<^verbatim>\<open>d * DAMAGE_DISTRIBUTION\<close> for the cell when it is in the
  window, nothing otherwise.
\<close>

definition cell_loss :: "rat \<Rightarrow> nat \<Rightarrow> nat \<Rightarrow> nat \<Rightarrow> rat" where
  "cell_loss d i r c =
     (if i \<le> c \<and> c < i + 5
      then d * (ARMOR_RATING_PER_CELL_FACTOR * (POOLING_WEIGHTS ! r ! (c - i)))
      else 0)"

text \<open>
  What holds of a tracker over a weapon of finite ammunition from its construction on and
  after every call that \<^verbatim>\<open>_gun_hit_sequence\<close> makes on it: the regeneration time is the
  inverse of the regeneration rate of the weapon, which is not zero; the ammunition is
  an integer from 0 to the ammunition of the weapon, and below it while the tracker is
  regenerating; the amount regenerated and not yet credited is 0, or positive and less
  than the reload size.
\<close>

definition tracker_inv :: "ammo_tracker \<Rightarrow> bool" where
  "tracker_inv tr =
     (ammo_regen (weapon tr) \<noteq> 0
      \<and> ammo_regen_time tr = 1 / ammo_regen (weapon tr)
      \<and> (case (cur_ammo tr, ammo (weapon tr)) of
            (Finite a, Finite m) \<Rightarrow> 0 \<le> a \<and> a \<le> m \<and> (regenerating_ammo tr \<longrightarrow> a < m)
          | _ \<Rightarrow> False)
      \<and> 0 \<le> ammo_regenerated tr
      \<and> (ammo_regenerated tr = 0
           \<or> of_int (ammo_regenerated tr) < reload_size (weapon tr)))"

text \<open>
  A tracker over a gun that regenerates one unit of ammunition a second with a reload size
  of 1, as the gun of \<^verbatim>\<open>test_hit_sequence\<close> does, six shots below its ammunition.
\<close>

definition unit_tracker :: ammo_tracker where
  "unit_tracker =
     \<lparr>weapon = \<lparr>charge_up = 0, charge_down = 1/10, burst_size = 1, burst_delay = 0,
                 ammo = Finite 10, ammo_regen = 1, reload_size = 1, proj_speed = 500,
                 mode = Some GUN\<rparr>,
      cur_ammo = Finite 4,
      ammo_regen_time = 1,
      ammo_regenerated = 0,
      ammo_regen_timer = 5/2,
      regenerating_ammo = True\<rparr>"

text \<open>
  The states that a run of \<^verbatim>\<open>_gun_hit_sequence\<close> passes through, statement by statement:
  the state after the tracker is built, and from any state of the run the state after the
  charge up, after a regeneration check, after one pass of the body of
  \<^verbatim>\<open>_simultaneous_shots\<close>, after the charge down (\<^verbatim>\<open>_successive_shots\<close> changes no state).
  The order of the statements is left open, so the states of a run of the loop are among
  them (\<open>gun_cycle_run\<close>, \<open>gun_loop_run\<close>).
\<close>

inductive gun_run :: "weapon \<Rightarrow> rat \<Rightarrow> gun_state \<Rightarrow> bool"
  for w :: weapon and travel_time :: rat where
  run_start: "AmmoTracker w = Inr tr \<Longrightarrow>
              gun_run w travel_time \<lparr>time = 0, hit_times = [], tracker = tr\<rparr>"
| run_charge_up: "gun_run w travel_time st \<Longrightarrow>
              gun_run w travel_time (st\<lparr>time := time st + charge_up w\<rparr>)"
| run_regenerate: "gun_run w travel_time st \<Longrightarrow> regenerate_if_due st = Inr st' \<Longrightarrow>
              gun_run w travel_time st'"
| run_shot: "gun_run w travel_time st \<Longrightarrow> simultaneous_shot travel_time st = Inr st' \<Longrightarrow>
              gun_run w travel_time st'"
| run_charge_down: "gun_run w travel_time st \<Longrightarrow>
              gun_run w travel_time (st\<lparr>time := time st + charge_down w\<rparr>)"

text \<open>A small ship, for concrete instances of the properties.\<close>

definition example_ship :: ship where
  "example_ship =
     \<lparr>ship_hull = 100, flux_capacity = 10, flux_dissipation = 1,
      grid = ArmorGrid 150 15 2, weapons = [], hard_flux = 0, soft_flux = 0\<rparr>"

text \<open>
  A shot heavy enough to drive cells of the small ship below zero, as \<^verbatim>\<open>distribute\<close>
  leaves it with a probability of 3/4 at each bound.
\<close>

definition heavy_shot :: shot where
  "heavy_shot =
     (Shot 300 ENERGY False True)
       \<lparr>probabilities := Some [3/4, 3/4], expected_armor_damage := Some [225, 225]\<rparr>"


text \<open>
  A gun that fires once every 50 seconds, its record in the database and the state in
  which its run starts, for concrete instances of the properties.
\<close>

definition slow_gun_data :: record_data where
  "slow_gun_data =
     [''chargeup'' \<mapsto> Num 0, ''chargedown'' \<mapsto> Num 50, ''burst size'' \<mapsto> Num 1,
      ''burst delay'' \<mapsto> Num 0, ''ammo'' \<mapsto> Num 1, ''ammo regen'' \<mapsto> Num 1,
      ''reload size'' \<mapsto> Num 1, ''proj speed'' \<mapsto> Num 2,
      ''specClass'' \<mapsto> Str ''projectile'', ''type'' \<mapsto> Str ''BALLISTIC'']"

definition slow_gun :: weapon where
  "slow_gun =
     \<lparr>charge_up = 0, charge_down = 50, burst_size = 1, burst_delay = 0,
      ammo = Finite 1, ammo_regen = 1, reload_size = 1, proj_speed = 2, mode = Some GUN\<rparr>"

definition slow_gun_start :: gun_state where
  "slow_gun_start =
     \<lparr>time = 0, hit_times = [],
      tracker = \<lparr>weapon = slow_gun, cur_ammo = Finite 1, ammo_regen_time = 1,
                 ammo_regenerated = 0, ammo_regen_timer = 0, regenerating_ammo = False\<rparr>\<rparr>"

text \<open>
  A tracker on which no call of \<^verbatim>\<open>_gun_hit_sequence\<close> raises: integers for the ammunition
  of the tracker and of its weapon, and a regeneration rate that is not zero.
\<close>

definition finite_ammo :: "ammo_tracker \<Rightarrow> bool" where
  "finite_ammo tr =
     (ammo_regen (weapon tr) \<noteq> 0 \<and> cur_ammo tr \<noteq> UNLIMITED \<and> ammo (weapon tr) \<noteq> UNLIMITED)"

text \<open>
  The hit counts as the specification words them, to compare with \<open>hit_buckets\<close>: entry 0
  counts the hits in (0, 1], entry \<open>k\<close> the hits in (k, k + 1].
\<close>

definition in_spec_bucket :: "nat \<Rightarrow> rat \<Rightarrow> bool" where
  "in_spec_bucket k t = (of_nat k < t \<and> t \<le> of_nat k + 1)"

definition spec_hit_buckets :: "rat list \<Rightarrow> nat list" where
  "spec_hit_buckets ts = map (\<lambda>k. length (filter (in_spec_bucket k) ts)) [0..<100]"

text \<open>
  The hits of second \<open>k\<close>, from \<open>k\<close> on and before \<open>k + 1\<close>; from second 1 on these are the
  hits whose \<^verbatim>\<open>int(t)\<close> is \<open>k\<close>.
\<close>

definition in_second :: "nat \<Rightarrow> rat \<Rightarrow> bool" where
  "in_second k t = (of_nat k \<le> t \<and> t < of_nat k + 1)"

text \<open>
  The record of the slow gun with the type of a missile, and the record \<^verbatim>\<open>beam_data\<close> of
  \<^verbatim>\<open>test_hit_sequence\<close> (\<^verbatim>\<open>Decimal(1 / 7)\<close> is the exact value of the float).
\<close>

definition missile_data :: record_data where
  "missile_data = slow_gun_data(''type'' \<mapsto> Str ''MISSILE'')"

definition beam_data :: record_data where
  "beam_data =
     [''chargeup'' \<mapsto> Num 1, ''chargedown'' \<mapsto> Num 1, ''burst size'' \<mapsto> Num 1,
      ''burst delay'' \<mapsto> Num 0, ''ammo'' \<mapsto> Num 7,
      ''ammo regen'' \<mapsto> Num (2573485501354569 / 18014398509481984),
      ''reload size'' \<mapsto> Num 3, ''proj speed'' \<mapsto> Num 1000,
      ''type'' \<mapsto> Str ''ENERGY'', ''specClass'' \<mapsto> Str ''beam'']"

section \<open>Properties\<close>

subsection \<open>Arrays and the damage kernel\<close>

lemma shape2_nth: "shape2 r c m \<Longrightarrow> i < r \<Longrightarrow> length (m ! i) = c"
  by (simp add: shape2_def list_all_length)

lemma shape2_length: "shape2 r c m \<Longrightarrow> length m = r"
  by (simp add: shape2_def)

lemma shape2_weights: "shape2 5 5 POOLING_WEIGHTS"
  by (simp add: shape2_def POOLING_WEIGHTS_def)

lemma shape2_scale2: "shape2 r c m \<Longrightarrow> shape2 r c (scale2 k m)"
  by (simp add: shape2_def scale2_def list_all_length)

lemma scale2_nth: "shape2 r c m \<Longrightarrow> i < r \<Longrightarrow> j < c \<Longrightarrow> scale2 k m ! i ! j = k * (m ! i ! j)"
  by (simp add: shape2_def scale2_def list_all_length)

lemma sum2_scale2: "sum2 (scale2 k m) = k * sum2 m"
  by (simp add: sum2_def scale2_def comp_def sum_list_const_mult)

lemma sum_list_map2_diff:
  "length xs = length ys \<Longrightarrow> sum_list (map2 (-) xs ys) = sum_list xs - sum_list (ys :: rat list)"
  by (induction xs ys rule: list_induct2) simp_all

lemma sum2_diff:
  "length a = length b \<Longrightarrow> \<forall>i < length a. length (a ! i) = length (b ! i) \<Longrightarrow>
   sum2 (map2 (map2 (-)) a b) = sum2 a - sum2 b"
proof (induction a b rule: list_induct2)
  case Nil
  then show ?case by (simp add: sum2_def)
next
  case (Cons x xs y ys)
  have len: "length x = length y" using Cons.prems by (auto dest: spec [of _ 0])
  have rest: "\<forall>i < length xs. length (xs ! i) = length (ys ! i)"
    using Cons.prems by (auto dest: spec [of _ "Suc _"])
  from Cons.IH [OF rest] len show ?case
    by (simp add: sum2_def sum_list_map2_diff)
qed

lemma window_shape: "shape2 5 n cs \<Longrightarrow> i + 5 \<le> n \<Longrightarrow> shape2 5 5 (window cs i)"
  by (simp add: shape2_def window_def list_all_length)

lemma window_nth:
  "shape2 5 n cs \<Longrightarrow> i + 5 \<le> n \<Longrightarrow> r < 5 \<Longrightarrow> j < 5 \<Longrightarrow> window cs i ! r ! j = cs ! r ! (i + j)"
  by (simp add: shape2_def window_def list_all_length)

lemma sub_window_row:
  "shape2 5 n cs \<Longrightarrow> shape2 5 5 k \<Longrightarrow> r < 5 \<Longrightarrow>
   sub_window cs i k ! r =
     take i (cs ! r) @ map2 (-) (take 5 (drop i (cs ! r))) (k ! r) @ drop (i + 5) (cs ! r)"
  by (simp add: shape2_def sub_window_def nth_append)

lemma sub_window_length: "shape2 5 n cs \<Longrightarrow> shape2 5 5 k \<Longrightarrow> length (sub_window cs i k) = 5"
  by (simp add: shape2_def sub_window_def)

lemma sub_window_shape:
  assumes "shape2 5 n cs" "shape2 5 5 k" "i + 5 \<le> n"
  shows "shape2 5 n (sub_window cs i k)"
proof -
  have "length (sub_window cs i k ! r) = n" if "r < 5" for r
    using assms that shape2_nth [OF assms(1) that] shape2_nth [OF assms(2) that]
    by (simp add: sub_window_row)
  then show ?thesis
    using sub_window_length [OF assms(1,2)] by (simp add: shape2_def list_all_length)
qed

lemma sub_window_nth:
  assumes "shape2 5 n cs" "shape2 5 5 k" "i + 5 \<le> n" "r < 5" "c < n"
  shows "sub_window cs i k ! r ! c =
           cs ! r ! c - (if i \<le> c \<and> c < i + 5 then k ! r ! (c - i) else 0)"
proof -
  have lr: "length (cs ! r) = n" and lk: "length (k ! r) = 5"
    using assms shape2_nth by blast+
  show ?thesis
    using assms lr lk by (auto simp: sub_window_row nth_append)
qed

lemma window_sub_window:
  assumes "shape2 5 n cs" "shape2 5 5 k" "i + 5 \<le> n"
  shows "window (sub_window cs i k) i = map2 (map2 (-)) (window cs i) k"
proof (rule nth_equalityI)
  show "length (window (sub_window cs i k) i) = length (map2 (map2 (-)) (window cs i) k)"
    using assms sub_window_length [OF assms(1,2)] by (simp add: window_def shape2_def)
next
  fix r assume "r < length (window (sub_window cs i k) i)"
  then have r: "r < 5" using sub_window_length [OF assms(1,2)] by (simp add: window_def)
  have lr: "length (cs ! r) = n" and lk: "length (k ! r) = 5"
    using assms r shape2_nth by blast+
  have lcs: "length cs = 5" and lks: "length k = 5" using assms by (simp_all add: shape2_def)
  show "window (sub_window cs i k) i ! r = map2 (map2 (-)) (window cs i) k ! r"
    using assms r lr lk lcs lks sub_window_length [OF assms(1,2)]
    by (simp add: window_def sub_window_row)
qed

lemma sum2_weights: "sum2 POOLING_WEIGHTS = 15"
  by (simp add: sum2_def POOLING_WEIGHTS_def)

lemma damage_armor_grid_ok:
  assumes "grid_shape width g" "i < width"
  shows "damage_armor_grid g dmg i = Inr (g\<lparr>cells := sub_window (cells g) i (scale2 dmg DAMAGE_DISTRIBUTION)\<rparr>)"
  using assms window_shape [of "width + 4" "cells g" i]
  by (simp add: damage_armor_grid_def grid_shape_def)

lemma shape2_distribution: "shape2 5 5 (scale2 dmg DAMAGE_DISTRIBUTION)"
  by (simp add: DAMAGE_DISTRIBUTION_def shape2_scale2 shape2_weights)

lemma distribution_nth:
  "r < 5 \<Longrightarrow> j < 5 \<Longrightarrow>
   scale2 dmg DAMAGE_DISTRIBUTION ! r ! j
     = dmg * (ARMOR_RATING_PER_CELL_FACTOR * (POOLING_WEIGHTS ! r ! j))"
  using shape2_weights
  by (simp add: DAMAGE_DISTRIBUTION_def scale2_nth [where r=5 and c=5] shape2_scale2)

lemma damage_armor_grid_effect:
  assumes "grid_shape width g" and "i < width"
  shows "\<exists>g'. damage_armor_grid g dmg i = Inr g'
           \<and> grid_shape width g'
           \<and> minimum_armor g' = minimum_armor g \<and> bounds g' = bounds g
           \<and> (\<forall>r < 5. \<forall>c < width + 4.
                 cells g' ! r ! c =
                   cells g ! r ! c
                   - (if i \<le> c \<and> c < i + 5
                      then dmg * (ARMOR_RATING_PER_CELL_FACTOR * (POOLING_WEIGHTS ! r ! (c - i)))
                      else 0))
           \<and> sum2 (window (cells g) i) - sum2 (window (cells g') i)
               = dmg * ARMOR_RATING_PER_CELL_FACTOR * sum2 POOLING_WEIGHTS"
proof -
  let ?k = "scale2 dmg DAMAGE_DISTRIBUTION"
  let ?g = "g\<lparr>cells := sub_window (cells g) i ?k\<rparr>"
  have sh: "shape2 5 (width + 4) (cells g)" using assms(1) by (simp add: grid_shape_def)
  have k: "shape2 5 5 ?k" by (rule shape2_distribution)
  have i: "i + 5 \<le> width + 4" using assms(2) by simp
  have run: "damage_armor_grid g dmg i = Inr ?g" by (rule damage_armor_grid_ok [OF assms])
  have shape: "grid_shape width ?g"
    using sub_window_shape [OF sh k i] by (simp add: grid_shape_def)
  have cell: "cells ?g ! r ! c =
      cells g ! r ! c
      - (if i \<le> c \<and> c < i + 5
         then dmg * (ARMOR_RATING_PER_CELL_FACTOR * (POOLING_WEIGHTS ! r ! (c - i))) else 0)"
    if "r < 5" "c < width + 4" for r c
    using sub_window_nth [OF sh k i that] that distribution_nth [of r "c - i" dmg]
    by auto
  have win: "shape2 5 5 (window (cells g) i)" by (rule window_shape [OF sh i])
  have "sum2 (window (cells ?g) i) = sum2 (window (cells g) i) - sum2 ?k"
    using window_sub_window [OF sh k i] win k
    by (simp add: sum2_diff shape2_def list_all_length)
  then have total: "sum2 (window (cells g) i) - sum2 (window (cells ?g) i)
      = dmg * ARMOR_RATING_PER_CELL_FACTOR * sum2 POOLING_WEIGHTS"
    by (simp add: DAMAGE_DISTRIBUTION_def sum2_scale2)
  show ?thesis
    using run shape cell total by (intro exI [of _ ?g]) simp
qed

lemma ArmorGrid_shape: "grid_shape width (ArmorGrid armor_rating cell_size width)"
  by (simp add: grid_shape_def shape2_def ArmorGrid_def list_all_length)

text \<open>
  Claim C4. On a grid of 5 rows and \<open>width + 4\<close> columns and for an index \<open>i < width\<close>,
  \<^verbatim>\<open>damage_armor_grid\<close> succeeds; every cell of the window of columns \<open>i\<close> to \<open>i + 4\<close>
  loses the damage times its entry of \<^verbatim>\<open>DAMAGE_DISTRIBUTION\<close> (the cell factor times the
  pooling weight), every other cell keeps its value, and the window loses in total the
  damage times the cell factor times the sum of the pooling weights. The shape, the
  minimum armor and the bounds of the grid stay as they were.
\<close>

theorem damage_armor_grid_window:
  assumes "grid_shape width g" and "i < width"
  shows "\<exists>g'. damage_armor_grid g dmg i = Inr g'
           \<and> grid_shape width g'
           \<and> minimum_armor g' = minimum_armor g \<and> bounds g' = bounds g
           \<and> (\<forall>r < 5. \<forall>c < width + 4.
                 cells g' ! r ! c =
                   cells g ! r ! c
                   - (if i \<le> c \<and> c < i + 5
                      then dmg * (ARMOR_RATING_PER_CELL_FACTOR * (POOLING_WEIGHTS ! r ! (c - i)))
                      else 0))
           \<and> sum2 (window (cells g) i) - sum2 (window (cells g') i)
               = dmg * ARMOR_RATING_PER_CELL_FACTOR * sum2 POOLING_WEIGHTS"
  using assms by (rule damage_armor_grid_effect)

theorem damage_armor_grid_window_witness:
  "grid_shape 2 (ArmorGrid 150 15 2) \<and> (1::nat) < 2
   \<and> (\<exists>g'. damage_armor_grid (ArmorGrid 150 15 2) 15 1 = Inr g'
           \<and> sum2 (window (cells (ArmorGrid 150 15 2)) 1) - sum2 (window (cells g') 1) = 15)"
proof -
  have h: "grid_shape 2 (ArmorGrid 150 15 2)"
    by (rule ArmorGrid_shape)
  from damage_armor_grid_window [OF h, of 1 15] show ?thesis
    using h by (auto simp: ARMOR_RATING_PER_CELL_FACTOR_def sum2_weights)
qed

subsection \<open>Pooled armor and damage factors\<close>

lemma sequence_err_map_Inr:
  "(\<And>x. x \<in> set xs \<Longrightarrow> f x = Inr (h x)) \<Longrightarrow> sequence_err (map f xs) = Inr (map h xs)"
  by (induction xs) simp_all

lemma nonneg_map2_mult:
  "list_all (\<lambda>x. 0 \<le> x) a \<Longrightarrow> list_all (\<lambda>x. 0 \<le> x) b \<Longrightarrow>
   list_all (\<lambda>x. (0::rat) \<le> x) (map2 (*) a b)"
  by (auto simp: list_all_iff intro!: mult_nonneg_nonneg dest: set_zip_leftD set_zip_rightD)

lemma nonneg_sum2:
  "list_all (list_all (\<lambda>x. (0::rat) \<le> x)) m \<Longrightarrow> 0 \<le> sum2 m"
  by (auto simp: sum2_def list_all_iff intro!: sum_list_nonneg)

lemma nonneg_mul2:
  "list_all (list_all (\<lambda>x. 0 \<le> x)) a \<Longrightarrow> list_all (list_all (\<lambda>x. 0 \<le> x)) b \<Longrightarrow>
   list_all (list_all (\<lambda>x. (0::rat) \<le> x)) (mul2 a b)"
  unfolding mul2_def
proof (induction a arbitrary: b)
  case Nil
  then show ?case by simp
next
  case (Cons x xs)
  then show ?case by (cases b) (simp_all add: nonneg_map2_mult)
qed

lemma nonneg_weights: "list_all (list_all (\<lambda>x. (0::rat) \<le> x)) POOLING_WEIGHTS"
  by (simp add: POOLING_WEIGHTS_def)

lemma nonneg_window:
  "list_all (list_all (\<lambda>x. (0::rat) \<le> x)) cs \<Longrightarrow>
   list_all (list_all (\<lambda>x. 0 \<le> x)) (window cs i)"
  by (auto simp: window_def list_all_iff dest!: in_set_takeD in_set_dropD)

lemma stretch_shape55: "shape2 5 5 w \<Longrightarrow> stretch (map stretch w) = w"
  by (auto simp: shape2_def stretch_def list_all_iff intro: map_idI)

lemma pool_ok:
  assumes "grid_shape width g" "i < width"
  shows "pool g i = Inr (sum2 (mul2 POOLING_WEIGHTS (window (cells g) i)))"
proof -
  have w: "shape2 5 5 (window (cells g) i)"
    using window_shape [of "width + 4" "cells g" i] assms by (simp add: grid_shape_def)
  then have "length (window (cells g) i) = 5"
      "list_all (\<lambda>row. length row = 5) (window (cells g) i)"
    by (simp_all add: shape2_def)
  then show ?thesis
    by (simp add: pool_def Let_def stretch_shape55 [OF w])
qed

lemma pooled_values_ok:
  assumes "grid_shape width g"
  shows "pooled_values g = Inr (map (pooled g) [0..<width])"
proof -
  have len: "length (cells g) = 5" and row: "length (cells g ! 2) = width + 4"
    using assms shape2_nth [of 5 "width + 4" "cells g" 2]
    by (simp_all add: grid_shape_def shape2_def)
  have "sequence_err (map (pool g) [0..<width])
          = Inr (map (\<lambda>i. sum2 (mul2 POOLING_WEIGHTS (window (cells g) i))) [0..<width])"
    by (rule sequence_err_map_Inr) (simp add: pool_ok [OF assms])
  then show ?thesis
    using len row by (simp add: pooled_values_def bind_err_def pooled_def comp_def)
qed

lemma pooled_nonneg: "cells_nonneg g \<Longrightarrow> 0 \<le> pooled g i"
  using nonneg_sum2 [OF nonneg_mul2 [OF nonneg_weights nonneg_window]]
  by (simp add: pooled_def cells_nonneg_def le_max_iff_disj)

lemma damage_factor_ok:
  assumes "0 < h" "0 \<le> p"
  shows "damage_factor h p = Inr (max MINIMUM_DAMAGE_FACTOR (1 / (1 + p / h)))"
    and "15 / 100 \<le> max MINIMUM_DAMAGE_FACTOR (1 / (1 + p / h))"
    and "max MINIMUM_DAMAGE_FACTOR (1 / (1 + p / h)) \<le> 1"
proof -
  have q: "0 \<le> p / h" using assms by simp
  then have pos: "1 \<le> 1 + p / h" by simp
  then have "1 + p / h \<noteq> 0" by linarith
  then show "damage_factor h p = Inr (max MINIMUM_DAMAGE_FACTOR (1 / (1 + p / h)))"
    using assms by (simp add: damage_factor_def)
  show "15 / 100 \<le> max MINIMUM_DAMAGE_FACTOR (1 / (1 + p / h))"
    by (simp add: MINIMUM_DAMAGE_FACTOR_def)
  have "1 / (1 + p / h) \<le> 1" using pos by (simp add: divide_le_eq)
  then show "max MINIMUM_DAMAGE_FACTOR (1 / (1 + p / h)) \<le> 1"
    by (simp add: MINIMUM_DAMAGE_FACTOR_def)
qed

lemma damage_factors_ok:
  assumes "grid_shape width g" "cells_nonneg g" "0 < h"
  shows "damage_factors g h
           = Inr (map (\<lambda>i. max MINIMUM_DAMAGE_FACTOR (1 / (1 + pooled g i / h))) [0..<width])"
proof -
  have "sequence_err (map (damage_factor h) (map (pooled g) [0..<width]))
          = Inr (map (\<lambda>p. max MINIMUM_DAMAGE_FACTOR (1 / (1 + p / h))) (map (pooled g) [0..<width]))"
    by (rule sequence_err_map_Inr)
       (auto simp: damage_factor_ok(1) [OF assms(3)] pooled_nonneg [OF assms(2)])
  then show ?thesis
    by (simp add: damage_factors_def pooled_values_ok [OF assms(1)] bind_err_def comp_def)
qed

text \<open>
  Claim C3. On a grid of 5 rows and \<open>width + 4\<close> columns whose cells are all nonnegative
  and for a positive hit strength, \<^verbatim>\<open>damage_factors\<close> returns one factor for each of the
  \<open>width\<close> cells of the middle row that are not padding; the factor of cell \<open>i\<close> is the
  greater of 0.15 and \<open>1 / (1 + p / hit_strength)\<close>, where \<open>p\<close> is the value that
  \<^verbatim>\<open>_pooled_values\<close> returns for the cell, the weighted sum of its window floored at the
  minimum armor; and every factor is at least 0.15 and at most 1.
\<close>

theorem damage_factors_range:
  assumes "grid_shape width g" and "cells_nonneg g" and "0 < hit_strength"
  shows "\<exists>ps fs. pooled_values g = Inr ps \<and> damage_factors g hit_strength = Inr fs
           \<and> length ps = width \<and> length fs = width
           \<and> (\<forall>i < width.
                 ps ! i = max (minimum_armor g)
                            (sum2 (mul2 POOLING_WEIGHTS (window (cells g) i)))
               \<and> fs ! i = max MINIMUM_DAMAGE_FACTOR (1 / (1 + ps ! i / hit_strength))
               \<and> 15 / 100 \<le> fs ! i \<and> fs ! i \<le> 1)"
proof -
  let ?ps = "map (pooled g) [0..<width]"
  let ?fs = "map (\<lambda>i. max MINIMUM_DAMAGE_FACTOR (1 / (1 + pooled g i / hit_strength))) [0..<width]"
  have a: "pooled_values g = Inr ?ps" by (rule pooled_values_ok [OF assms(1)])
  have b: "damage_factors g hit_strength = Inr ?fs" by (rule damage_factors_ok [OF assms])
  have c: "length ?ps = width" "length ?fs = width" by simp_all
  have "?ps ! i = max (minimum_armor g)
                            (sum2 (mul2 POOLING_WEIGHTS (window (cells g) i)))
      \<and> ?fs ! i = max MINIMUM_DAMAGE_FACTOR (1 / (1 + ?ps ! i / hit_strength))
      \<and> 15 / 100 \<le> ?fs ! i \<and> ?fs ! i \<le> 1" if "i < width" for i
    using that damage_factor_ok(2,3) [OF assms(3) pooled_nonneg [OF assms(2)], of i]
    by (simp add: pooled_def)
  then have d: "\<forall>i < width.
      ?ps ! i = max (minimum_armor g) (sum2 (mul2 POOLING_WEIGHTS (window (cells g) i)))
      \<and> ?fs ! i = max MINIMUM_DAMAGE_FACTOR (1 / (1 + ?ps ! i / hit_strength))
      \<and> 15 / 100 \<le> ?fs ! i \<and> ?fs ! i \<le> 1"
    by blast
  show ?thesis
    using a b c d by blast
qed

lemma ArmorGrid_nonneg: "0 \<le> armor_rating \<Longrightarrow> cells_nonneg (ArmorGrid armor_rating cell_size width)"
  by (simp add: cells_nonneg_def ArmorGrid_def list_all_length ARMOR_RATING_PER_CELL_FACTOR_def)

theorem damage_factors_range_witness:
  "grid_shape 3 (ArmorGrid 1000 15 3) \<and> cells_nonneg (ArmorGrid 1000 15 3) \<and> (0::rat) < 100
   \<and> (\<exists>fs. damage_factors (ArmorGrid 1000 15 3) 100 = Inr fs \<and> length fs = 3
         \<and> (\<forall>i < 3. 15 / 100 \<le> fs ! i \<and> fs ! i \<le> 1))"
proof -
  have h1: "grid_shape 3 (ArmorGrid 1000 15 3)" by (rule ArmorGrid_shape)
  have h2: "cells_nonneg (ArmorGrid 1000 15 3)" by (rule ArmorGrid_nonneg) simp
  have h3: "(0::rat) < 100" by simp
  from damage_factors_range [OF h1 h2 h3] show ?thesis
    using h1 h2 by auto
qed

subsection \<open>Damage to a ship\<close>

lemma distribute_Inr:
  assumes "distribute s0 sh d = Inr (s, sh1)"
  shows "sh1 = sh" and "bounds (grid sh) \<noteq> []"
    and "s = s0\<lparr>probabilities := Some (map d (bounds (grid sh))),
                expected_armor_damage :=
                  Some (map (\<lambda>p. armor_damage s0 * p) (map d (bounds (grid sh))))\<rparr>"
  using assms
  by (auto simp: distribute_def vectorize_def bind_err_def Let_def split: if_splits)

lemma negative_sum_nonpos: "negative_sum cs \<le> 0"
  unfolding negative_sum_def by (rule sum_list_nonpos) auto

lemma clamp_nonneg: "list_all (list_all (\<lambda>c. (0::rat) \<le> c)) (map (map (max 0)) cs)"
  by (simp add: list_all_iff)

lemma clamp_shape: "shape2 r c cs \<Longrightarrow> shape2 r c (map (map (max 0)) cs)"
  by (simp add: shape2_def list_all_iff)

lemma damage_loop_cells:
  assumes "grid_shape width g" and "i0 + length ds \<le> width"
  shows "\<exists>g'. damage_loop g i0 ds = Inr g' \<and> grid_shape width g'
           \<and> minimum_armor g' = minimum_armor g \<and> bounds g' = bounds g
           \<and> (\<forall>r < 5. \<forall>c < width + 4.
                 cells g' ! r ! c =
                   cells g ! r ! c - (\<Sum>j < length ds. cell_loss (ds ! j) (i0 + j) r c))"
  using assms
proof (induction ds arbitrary: g i0)
  case Nil
  then show ?case by simp
next
  case (Cons d ds)
  have i0: "i0 < width" using Cons.prems(2) by simp
  from damage_armor_grid_effect [OF Cons.prems(1) i0, of d]
  obtain g1 where g1: "damage_armor_grid g d i0 = Inr g1" "grid_shape width g1"
      "minimum_armor g1 = minimum_armor g" "bounds g1 = bounds g"
      and c1: "\<And>r c. r < 5 \<Longrightarrow> c < width + 4 \<Longrightarrow>
                cells g1 ! r ! c = cells g ! r ! c - cell_loss d i0 r c"
    unfolding cell_loss_def by blast
  have "Suc i0 + length ds \<le> width" using Cons.prems(2) by simp
  from Cons.IH [OF g1(2) this]
  obtain g' where g': "damage_loop g1 (Suc i0) ds = Inr g'" "grid_shape width g'"
      "minimum_armor g' = minimum_armor g1" "bounds g' = bounds g1"
      and c': "\<And>r c. r < 5 \<Longrightarrow> c < width + 4 \<Longrightarrow>
                cells g' ! r ! c =
                  cells g1 ! r ! c - (\<Sum>j < length ds. cell_loss (ds ! j) (Suc i0 + j) r c)"
    by blast
  have run: "damage_loop g i0 (d # ds) = Inr g'"
    using g1(1) g'(1) by (simp add: bind_err_def)
  have "cells g' ! r ! c =
          cells g ! r ! c - (\<Sum>j < length (d # ds). cell_loss ((d # ds) ! j) (i0 + j) r c)"
    if "r < 5" "c < width + 4" for r c
    using c1 [OF that] c' [OF that] by (simp add: sum.lessThan_Suc_shift del: sum.lessThan_Suc)
  then show ?case
    using run g'(2,3,4) g1(3,4) by (intro exI [of _ g']) simp
qed

lemma Shot_positive:
  assumes "0 < dmg"
  shows "0 < strength (Shot dmg dtype beam fh)" and "0 < armor_damage_factor (Shot dmg dtype beam fh)"
  using assms by (cases dtype; simp add: Shot_def)+

lemma sum_list_negative: "sum_list (filter (\<lambda>c. c < 0) xs) = sum_list (map (min 0) (xs :: rat list))"
  by (induction xs) (simp_all add: min_def)

lemma negative_sum_rows:
  "negative_sum cs = (\<Sum>r < length cs. sum_list (map (min 0) (cs ! r)))"
proof -
  have "negative_sum cs = sum_list (map (\<lambda>row. sum_list (map (min 0) row)) cs)"
    by (induction cs) (simp_all add: negative_sum_def sum_list_negative)
  also have "\<dots> = (\<Sum>r < length cs. sum_list (map (min 0) (cs ! r)))"
    by (simp add: sum_list_sum_nth atLeast0LessThan)
  finally show ?thesis .
qed

lemma negative_sum_cells:
  assumes "shape2 5 n cs"
  shows "negative_sum cs = (\<Sum>r < 5. \<Sum>c < n. min 0 (cs ! r ! c))"
proof -
  have "sum_list (map (min 0) (cs ! r)) = (\<Sum>c < n. min 0 (cs ! r ! c))" if "r < 5" for r
    using shape2_nth [OF assms that] by (simp add: sum_list_sum_nth atLeast0LessThan)
  then show ?thesis
    using assms by (simp add: negative_sum_rows shape2_def)
qed

lemma armor_factor_pos: "0 < armor_factor dtype"
  by (cases dtype) simp_all

lemma pooled_floor: "minimum_armor g \<le> pooled g i"
  by (simp add: pooled_def)

lemma damage_factors_no_strength:
  assumes "grid_shape width g" "0 < minimum_armor g"
  shows "damage_factors g 0 = Inr (map (\<lambda>i. MINIMUM_DAMAGE_FACTOR) [0..<width])"
proof -
  have "pooled g i \<noteq> 0" for i
    using pooled_floor [of g i] assms(2) by linarith
  then have "sequence_err (map (damage_factor 0) (map (pooled g) [0..<width]))
          = Inr (map (\<lambda>p. MINIMUM_DAMAGE_FACTOR) (map (pooled g) [0..<width]))"
    by (intro sequence_err_map_Inr) (auto simp: damage_factor_def)
  then show ?thesis
    by (simp add: damage_factors_def pooled_values_ok [OF assms(1)] bind_err_def comp_def)
qed

lemma damage_factors_for_shot:
  assumes "grid_shape width g" "cells_nonneg g"
    and "0 < dmg \<or> (dmg = 0 \<and> 0 < minimum_armor g)"
  shows "\<exists>fs. damage_factors g (strength (Shot dmg dtype beam fh)) = Inr fs \<and> length fs = width"
proof (cases "0 < dmg")
  case True
  from damage_factors_ok [OF assms(1,2) Shot_positive(1) [OF True]]
  show ?thesis by simp
next
  case False
  then have "dmg = 0" "0 < minimum_armor g" using assms(3) by auto
  then show ?thesis
    using damage_factors_no_strength [OF assms(1)] by (simp add: Shot_def)
qed


text \<open>
  Claim C2. Take a ship whose grid has 5 rows and \<open>width + 4\<close> columns, \<open>width\<close> bounds and
  nonnegative cells, with a nonnegative hull, and a shot that \<^verbatim>\<open>distribute\<close> has aimed at
  the ship, of positive damage, or of no damage if the minimum armor of the grid is
  positive (with no damage and a pooled value of 0 numpy divides 0 by 0). Then
  \<^verbatim>\<open>damage_ship\<close> returns. Its damage distribution is, index by index, the expected armor
  damage times the damage factor for the strength of the shot; the grid \<open>g\<close> that the loop
  leaves is the grid of the ship with every cell reduced by what each index \<open>i < width\<close>
  takes from it, once (\<open>cell_loss\<close>); the new hull is the greater of 0 and the old hull
  plus the sum, over all cells of \<open>g\<close>, of the values below zero, divided by the armor
  damage factor, so it is nonnegative and no greater than the old hull; every new cell is
  the greater of 0 and the cell of \<open>g\<close>, so it is nonnegative; nothing else of the ship
  changes.
\<close>

theorem damage_ship_invariants:
  assumes "grid_shape width (grid sh)" and "length (bounds (grid sh)) = width"
    and "cells_nonneg (grid sh)" and "0 \<le> ship_hull sh"
    and "0 < dmg \<or> (dmg = 0 \<and> 0 < minimum_armor (grid sh))"
    and "distribute (Shot dmg dtype beam fh) sh distribution = Inr (s, sh1)"
  shows "\<exists>ead fs g sh'.
           expected_armor_damage s = Some ead \<and> length ead = width
         \<and> damage_factors (grid sh1) (strength s) = Inr fs \<and> length fs = width
         \<and> damage_loop (grid sh1) 0 (map2 (*) ead fs) = Inr g
         \<and> (\<forall>r < 5. \<forall>c < width + 4.
               cells g ! r ! c =
                 cells (grid sh1) ! r ! c - (\<Sum>i < width. cell_loss (ead ! i * fs ! i) i r c))
         \<and> damage_ship s sh1 = Inr sh'
         \<and> ship_hull sh' =
              max 0 (ship_hull sh1
                     + (\<Sum>r < 5. \<Sum>c < width + 4. min 0 (cells g ! r ! c))
                       / armor_damage_factor s)
         \<and> (\<forall>r < 5. \<forall>c < width + 4.
               cells (grid sh') ! r ! c = max 0 (cells g ! r ! c)
               \<and> 0 \<le> cells (grid sh') ! r ! c)
         \<and> 0 \<le> ship_hull sh' \<and> ship_hull sh' \<le> ship_hull sh1
         \<and> cells_nonneg (grid sh') \<and> grid_shape width (grid sh')
         \<and> sh' = sh1\<lparr>ship_hull := ship_hull sh', grid := (grid sh1)\<lparr>cells := cells (grid sh')\<rparr>\<rparr>"
proof -
  let ?s0 = "Shot dmg dtype beam fh"
  let ?ps = "map distribution (bounds (grid sh))"
  let ?ead = "map (\<lambda>p. armor_damage ?s0 * p) ?ps"
  note d = distribute_Inr [OF assms(6)]
  have sh1: "sh1 = sh" by (rule d(1))
  have s: "expected_armor_damage s = Some ?ead" "strength s = strength ?s0"
      "armor_damage_factor s = armor_damage_factor ?s0"
    by (simp_all add: d(3))
  have pos: "0 < armor_damage_factor ?s0"
    by (simp add: Shot_def armor_factor_pos)
  from damage_factors_for_shot [OF assms(1,3,5)]
  obtain fs where fs: "damage_factors (grid sh) (strength ?s0) = Inr fs" "length fs = width"
    by blast
  let ?dd = "map2 (*) ?ead fs"
  have len: "length ?ead = width" "length ?dd = width"
    using assms(2) fs(2) by simp_all
  have "0 + length ?dd \<le> width" using len by simp
  from damage_loop_cells [OF assms(1) this]
  obtain g where g: "damage_loop (grid sh) 0 ?dd = Inr g" "grid_shape width g"
      "minimum_armor g = minimum_armor (grid sh)" "bounds g = bounds (grid sh)"
      and cell: "\<And>r c. r < 5 \<Longrightarrow> c < width + 4 \<Longrightarrow>
          cells g ! r ! c = cells (grid sh) ! r ! c - (\<Sum>j < length ?dd. cell_loss (?dd ! j) (0 + j) r c)"
    by blast
  have cellq: "\<forall>r < 5. \<forall>c < width + 4.
      cells g ! r ! c =
        cells (grid sh) ! r ! c - (\<Sum>i < width. cell_loss (?ead ! i * fs ! i) i r c)"
  proof (intro allI impI)
    fix r c :: nat assume rc: "r < 5" "c < width + 4"
    have "(\<Sum>j < length ?dd. cell_loss (?dd ! j) (0 + j) r c)
            = (\<Sum>i < width. cell_loss (?ead ! i * fs ! i) i r c)"
      using len assms(2) fs(2) by (intro sum.cong) simp_all
    then show "cells g ! r ! c =
        cells (grid sh) ! r ! c - (\<Sum>i < width. cell_loss (?ead ! i * fs ! i) i r c)"
      using cell [OF rc] by simp
  qed
  have gs: "shape2 5 (width + 4) (cells g)" using g(2) by (simp add: grid_shape_def)
  let ?neg = "\<Sum>r < 5. \<Sum>c < width + 4. min 0 (cells g ! r ! c)"
  have neg: "negative_sum (cells g) = ?neg" by (rule negative_sum_cells [OF gs])
  let ?hull = "max 0 (ship_hull sh + ?neg / armor_damage_factor ?s0)"
  let ?sh' = "sh\<lparr>ship_hull := ?hull, grid := g\<lparr>cells := map (map (max 0)) (cells g)\<rparr>\<rparr>"
  have bc: "mul_broadcast ?ead fs = Inr ?dd"
    using len fs(2) by (simp add: mul_broadcast_def)
  have run: "damage_ship s sh = Inr ?sh'"
    using fs(1) bc g(1) pos s neg
    by (simp add: damage_ship_def bind_err_def Let_def)
  have "?neg / armor_damage_factor ?s0 \<le> 0"
    using negative_sum_nonpos [of "cells g"] pos neg by (simp add: divide_le_0_iff)
  then have hull: "0 \<le> ?hull" "?hull \<le> ship_hull sh"
    using assms(4) by simp_all
  have clamp: "\<forall>r < 5. \<forall>c < width + 4.
      cells (grid ?sh') ! r ! c = max 0 (cells g ! r ! c) \<and> 0 \<le> cells (grid ?sh') ! r ! c"
  proof (intro allI impI)
    fix r c :: nat assume rc: "r < 5" "c < width + 4"
    have "length (cells g) = 5" "length (cells g ! r) = width + 4"
      using gs shape2_nth [OF gs rc(1)] by (simp_all add: shape2_def)
    then show "cells (grid ?sh') ! r ! c = max 0 (cells g ! r ! c)
        \<and> 0 \<le> cells (grid ?sh') ! r ! c"
      using rc by simp
  qed
  have nonneg: "cells_nonneg (grid ?sh')"
    by (simp add: cells_nonneg_def clamp_nonneg)
  have shape: "grid_shape width (grid ?sh')"
    using g(2) by (simp add: grid_shape_def clamp_shape)
  have frame: "?sh' = sh\<lparr>ship_hull := ship_hull ?sh',
                          grid := (grid sh)\<lparr>cells := cells (grid ?sh')\<rparr>\<rparr>"
    using g(3,4) by simp
  show ?thesis
    unfolding sh1
    apply (rule exI [of _ ?ead], rule exI [of _ fs], rule exI [of _ g], rule exI [of _ ?sh'])
    apply (intro conjI)
    subgoal by (rule s(1))
    subgoal by (rule len(1))
    subgoal using fs(1) s(2) by simp
    subgoal by (rule fs(2))
    subgoal by (rule g(1))
    subgoal by (rule cellq)
    subgoal by (rule run)
    subgoal using s(3) by simp
    subgoal by (rule clamp)
    subgoal using hull(1) by simp
    subgoal using hull(2) by simp
    subgoal by (rule nonneg)
    subgoal by (rule shape)
    subgoal by (rule frame)
    done
qed

lemma heavy_shot_distribute:
  "distribute (Shot 300 ENERGY False True) example_ship (\<lambda>x. 3/4) = Inr (heavy_shot, example_ship)"
  by (simp add: distribute_def vectorize_def bind_err_def example_ship_def heavy_shot_def
        ArmorGrid_def Shot_def Let_def upt_rec)

lemma heavy_shot_damage:
  "map_sum id (\<lambda>sh. (ship_hull sh, cells (grid sh))) (damage_ship heavy_shot example_ship)
     = Inr (10, [[10, 5, 0, 0, 5, 10],
                 [5, 0, 0, 0, 0, 5],
                 [5, 0, 0, 0, 0, 5],
                 [5, 0, 0, 0, 0, 5],
                 [10, 5, 0, 0, 5, 10]])"
  by code_simp

theorem damage_ship_invariants_witness:
  "grid_shape 2 (grid example_ship) \<and> length (bounds (grid example_ship)) = 2
   \<and> cells_nonneg (grid example_ship) \<and> 0 \<le> ship_hull example_ship
   \<and> ((0::rat) < 300 \<or> ((300::rat) = 0 \<and> 0 < minimum_armor (grid example_ship)))
   \<and> distribute (Shot 300 ENERGY False True) example_ship (\<lambda>x. 3/4)
       = Inr (heavy_shot, example_ship)
   \<and> ship_hull example_ship = 100
   \<and> (\<exists>sh'. damage_ship heavy_shot example_ship = Inr sh'
          \<and> ship_hull sh' = 10
          \<and> cells (grid sh') = [[10, 5, 0, 0, 5, 10],
                                [5, 0, 0, 0, 0, 5],
                                [5, 0, 0, 0, 0, 5],
                                [5, 0, 0, 0, 0, 5],
                                [10, 5, 0, 0, 5, 10]]
          \<and> cells_nonneg (grid sh'))"
proof -
  have h1: "grid_shape 2 (grid example_ship)"
    by (simp add: example_ship_def ArmorGrid_shape)
  have h2: "length (bounds (grid example_ship)) = 2"
    by (simp add: example_ship_def ArmorGrid_def)
  have h3: "cells_nonneg (grid example_ship)"
    by (simp add: example_ship_def ArmorGrid_nonneg)
  have h4: "0 \<le> ship_hull example_ship" and h4': "ship_hull example_ship = 100"
    by (simp_all add: example_ship_def)
  have h5: "(0::rat) < 300 \<or> ((300::rat) = 0 \<and> 0 < minimum_armor (grid example_ship))"
    by simp
  from damage_ship_invariants [OF h1 h2 h3 h4 h5 heavy_shot_distribute]
  obtain sh' where r: "damage_ship heavy_shot example_ship = Inr sh'" "cells_nonneg (grid sh')"
    by blast
  from heavy_shot_damage r(1)
  have "ship_hull sh' = 10"
    "cells (grid sh') = [[10, 5, 0, 0, 5, 10],
                         [5, 0, 0, 0, 0, 5],
                         [5, 0, 0, 0, 0, 5],
                         [5, 0, 0, 0, 0, 5],
                         [10, 5, 0, 0, 5, 10]]"
    by simp_all
  then show ?thesis
    using h1 h2 h3 h4 h4' heavy_shot_distribute r by simp
qed

text \<open>
  A shot of no damage at a ship with armor: numpy divides by a strength of 0 and the
  factors are the minimum damage factor; the ship stays as it is.
\<close>

lemma damage_ship_no_damage:
  "damage_ship ((Shot 0 KINETIC False True)
                  \<lparr>probabilities := Some [3/4, 3/4], expected_armor_damage := Some [0, 0]\<rparr>)
     example_ship = Inr example_ship"
  by code_simp

subsection \<open>The caches of a shot\<close>

lemma distribute_ok:
  "bounds (grid sh) \<noteq> [] \<Longrightarrow>
   distribute s sh d =
     Inr (s\<lparr>probabilities := Some (map d (bounds (grid sh))),
            expected_armor_damage := Some (map (\<lambda>p. armor_damage s * p) (map d (bounds (grid sh))))\<rparr>,
          sh)"
  by (simp add: distribute_def vectorize_def bind_err_def Let_def)

text \<open>
  Claim C9. \<^verbatim>\<open>distribute\<close> against a ship with at least one bound (for a ship with none,
  \<^verbatim>\<open>np.vectorize\<close> raises and nothing is assigned) returns the ship as it was and a shot
  that differs from the shot before in its two caches alone: the probabilities are the
  values of the distribution at the bounds of the ship, the expected armor damage is the
  armor damage times each probability, and the damage, the shield damage, the armor damage,
  the armor damage factor, the strength and the hardness of the flux are as before. A
  second call against another ship leaves the shot that a first call of it on the fresh
  shot would leave: nothing of the caches of the first target remains.
\<close>

theorem distribute_frame:
  assumes "bounds (grid sh1) \<noteq> []" and "bounds (grid sh2) \<noteq> []"
  shows "\<exists>s1 s2.
           distribute s sh1 d1 = Inr (s1, sh1)
         \<and> probabilities s1 = Some (map d1 (bounds (grid sh1)))
         \<and> expected_armor_damage s1
             = Some (map (\<lambda>p. armor_damage s * p) (map d1 (bounds (grid sh1))))
         \<and> s1 = s\<lparr>probabilities := probabilities s1,
                    expected_armor_damage := expected_armor_damage s1\<rparr>
         \<and> damage s1 = damage s \<and> shield_damage s1 = shield_damage s
         \<and> armor_damage s1 = armor_damage s \<and> armor_damage_factor s1 = armor_damage_factor s
         \<and> strength s1 = strength s \<and> flux_hard s1 = flux_hard s
         \<and> distribute s1 sh2 d2 = Inr (s2, sh2)
         \<and> distribute s sh2 d2 = Inr (s2, sh2)
         \<and> probabilities s2 = Some (map d2 (bounds (grid sh2)))
         \<and> expected_armor_damage s2
             = Some (map (\<lambda>p. armor_damage s * p) (map d2 (bounds (grid sh2))))"
proof -
  let ?s1 = "s\<lparr>probabilities := Some (map d1 (bounds (grid sh1))),
               expected_armor_damage :=
                 Some (map (\<lambda>p. armor_damage s * p) (map d1 (bounds (grid sh1))))\<rparr>"
  let ?s2 = "s\<lparr>probabilities := Some (map d2 (bounds (grid sh2))),
               expected_armor_damage :=
                 Some (map (\<lambda>p. armor_damage s * p) (map d2 (bounds (grid sh2))))\<rparr>"
  have a: "distribute s sh1 d1 = Inr (?s1, sh1)" by (rule distribute_ok [OF assms(1)])
  have b: "distribute s sh2 d2 = Inr (?s2, sh2)" by (rule distribute_ok [OF assms(2)])
  have c: "distribute ?s1 sh2 d2 = Inr (?s2, sh2)"
    by (simp add: distribute_ok [OF assms(2)])
  show ?thesis
    apply (rule exI [of _ ?s1], rule exI [of _ ?s2])
    using a b c by simp
qed

theorem distribute_frame_witness:
  "bounds (grid example_ship) \<noteq> []
   \<and> bounds (grid (example_ship\<lparr>grid := ArmorGrid 300 15 3\<rparr>)) \<noteq> []
   \<and> (\<exists>s1 s2. distribute (Shot 30 ENERGY False True) example_ship (\<lambda>x. 1/2)
                  = Inr (s1, example_ship)
          \<and> strength s1 = 30
          \<and> distribute s1 (example_ship\<lparr>grid := ArmorGrid 300 15 3\<rparr>) (\<lambda>x. 1/3)
              = Inr (s2, example_ship\<lparr>grid := ArmorGrid 300 15 3\<rparr>)
          \<and> expected_armor_damage s2 = Some [10, 10, 10])"
proof -
  have h1: "bounds (grid example_ship) \<noteq> []"
    by (simp add: example_ship_def ArmorGrid_def upt_rec)
  have h2: "bounds (grid (example_ship\<lparr>grid := ArmorGrid 300 15 3\<rparr>)) \<noteq> []"
    by (simp add: ArmorGrid_def upt_rec)
  have b: "map (\<lambda>p. armor_damage (Shot 30 ENERGY False True) * p)
             (map (\<lambda>x. 1/3) (bounds (grid (example_ship\<lparr>grid := ArmorGrid 300 15 3\<rparr>))))
           = [10, 10, 10]"
    by (simp add: ArmorGrid_def Shot_def upt_rec)
  have c: "strength (Shot 30 ENERGY False True) = 30" by (simp add: Shot_def)
  from distribute_frame [OF h1 h2, of "Shot 30 ENERGY False True" "\<lambda>x. 1/2" "\<lambda>x. 1/3"]
  obtain s1 s2 where
    "distribute (Shot 30 ENERGY False True) example_ship (\<lambda>x. 1/2) = Inr (s1, example_ship)"
    "strength s1 = strength (Shot 30 ENERGY False True)"
    "distribute s1 (example_ship\<lparr>grid := ArmorGrid 300 15 3\<rparr>) (\<lambda>x. 1/3)
       = Inr (s2, example_ship\<lparr>grid := ArmorGrid 300 15 3\<rparr>)"
    "expected_armor_damage s2
       = Some (map (\<lambda>p. armor_damage (Shot 30 ENERGY False True) * p)
                (map (\<lambda>x. 1/3) (bounds (grid (example_ship\<lparr>grid := ArmorGrid 300 15 3\<rparr>)))))"
    by blast
  then show ?thesis using h1 h2 b c by (intro conjI exI [of _ s1] exI [of _ s2]) simp_all
qed

subsection \<open>The ammunition tracker\<close>

lemma py_int_nonneg: "0 \<le> x \<Longrightarrow> py_int x = \<lfloor>x\<rfloor>"
  by (simp add: py_int_def)

lemma py_int_of_int: "py_int (of_int k) = k"
  by (simp add: py_int_def)

lemma py_int_zero: "py_int 0 = 0"
  by (simp add: py_int_def)

lemma tracker_invE:
  assumes "tracker_inv tr"
  obtains a m where "cur_ammo tr = Finite a" "ammo (weapon tr) = Finite m"
    "0 \<le> a" "a \<le> m" "regenerating_ammo tr \<Longrightarrow> a < m"
    "ammo_regen (weapon tr) \<noteq> 0" "ammo_regen_time tr = 1 / ammo_regen (weapon tr)"
    "0 \<le> ammo_regenerated tr"
    "ammo_regenerated tr = 0 \<or> of_int (ammo_regenerated tr) < reload_size (weapon tr)"
  using assms unfolding tracker_inv_def
  by (cases "cur_ammo tr"; cases "ammo (weapon tr)") auto

lemma regenerate_ammo_finite:
  assumes "ammo_regen (weapon tr) \<noteq> 0" "cur_ammo tr = Finite a" "ammo (weapon tr) = Finite m"
  shows "regenerate_ammo tr t =
     (let n = py_int (ammo_regen (weapon tr) * (t - ammo_regen_timer tr));
          acc = ammo_regenerated tr + n;
          credit = (reload_size (weapon tr) \<le> of_int acc);
          a1 = (if credit then a + acc else a)
      in Inr (tr\<lparr>ammo_regenerated := (if credit then 0 else acc),
                 ammo_regen_timer := ammo_regen_timer tr + of_int n / ammo_regen (weapon tr),
                 cur_ammo := Finite (if m \<le> a1 then m else a1),
                 regenerating_ammo := (regenerating_ammo tr \<and> a1 < m)\<rparr>))"
  using assms
  by (cases tr) (auto simp: regenerate_ammo_def Let_def bind_err_def add_ammo_def ammo_ge_def)

lemma whole_units:
  fixes r x :: rat
  assumes "0 < r" "0 \<le> x"
  defines "n \<equiv> py_int (r * x)"
  shows "0 \<le> n" "of_int n \<le> r * x" "r * x < of_int n + 1"
    "of_int n / r \<le> x" "x - of_int n / r < 1 / r"
proof -
  have nn: "0 \<le> r * x" using assms by simp
  then have n: "n = \<lfloor>r * x\<rfloor>" by (simp add: n_def py_int_nonneg)
  show "0 \<le> n" using nn by (simp add: n)
  show le: "of_int n \<le> r * x" by (simp add: n)
  show lt: "r * x < of_int n + 1" unfolding n by linarith
  show "of_int n / r \<le> x"
    using le assms(1) by (simp add: pos_divide_le_eq mult.commute)
  have "(x - of_int n / r) * r = r * x - of_int n"
    using assms(1) by (simp add: left_diff_distrib)
  then have "(x - of_int n / r) * r < 1"
    using lt by linarith
  then show "x - of_int n / r < 1 / r"
    using assms(1) by (simp add: pos_less_divide_eq)
qed



subsection \<open>The invariant of the tracker\<close>

lemma AmmoTracker_inv:
  assumes "ammo w = Finite m" "0 \<le> m" "ammo_regen w \<noteq> 0"
  shows "\<exists>tr. AmmoTracker w = Inr tr \<and> tracker_inv tr \<and> weapon tr = w
           \<and> ammo_regen_timer tr = 0 \<and> \<not> regenerating_ammo tr \<and> cur_ammo tr = Finite m"
  using assms by (simp add: AmmoTracker_def tracker_inv_def)

lemma regenerate_ammo_inv:
  assumes "tracker_inv tr" "0 < ammo_regen (weapon tr)" "ammo_regen_timer tr \<le> t"
  shows "\<exists>tr'. regenerate_ammo tr t = Inr tr' \<and> tracker_inv tr' \<and> weapon tr' = weapon tr"
proof -
  from assms(1) obtain a m where f: "cur_ammo tr = Finite a" "ammo (weapon tr) = Finite m"
      "0 \<le> a" "a \<le> m" "ammo_regen (weapon tr) \<noteq> 0"
      "ammo_regen_time tr = 1 / ammo_regen (weapon tr)" "0 \<le> ammo_regenerated tr"
    by (rule tracker_invE)
  have x: "0 \<le> t - ammo_regen_timer tr" using assms(3) by simp
  have n: "0 \<le> py_int (ammo_regen (weapon tr) * (t - ammo_regen_timer tr))"
    by (rule whole_units(1) [OF assms(2) x])
  show ?thesis
    using f n
    by (simp add: regenerate_ammo_finite [OF f(5) f(1,2)] Let_def tracker_inv_def)
qed

lemma simultaneous_shot_inv:
  assumes "tracker_inv (tracker st)"
  shows "\<exists>st'. simultaneous_shot travel st = Inr st' \<and> tracker_inv (tracker st')
           \<and> weapon (tracker st') = weapon (tracker st) \<and> time st' = time st"
proof -
  from assms obtain a m where f: "cur_ammo (tracker st) = Finite a"
      "ammo (weapon (tracker st)) = Finite m" "0 \<le> a" "a \<le> m"
      "ammo_regen (weapon (tracker st)) \<noteq> 0"
      "ammo_regen_time (tracker st) = 1 / ammo_regen (weapon (tracker st))"
      "0 \<le> ammo_regenerated (tracker st)"
      "ammo_regenerated (tracker st) = 0
        \<or> of_int (ammo_regenerated (tracker st)) < reload_size (weapon (tracker st))"
    by (rule tracker_invE)
  show ?thesis
    using f assms by (auto simp: simultaneous_shot_def Let_def tracker_inv_def)
qed

lemma regenerate_unit_rate:
  assumes "tracker_inv tr" "ammo_regen (weapon tr) = 1" "reload_size (weapon tr) = 1"
    and "cur_ammo tr = Finite a" "ammo (weapon tr) = Finite m" "ammo_regen_timer tr \<le> t"
  shows "regenerate_ammo tr t =
           Inr (tr\<lparr>ammo_regenerated := 0,
                   ammo_regen_timer := ammo_regen_timer tr + of_int \<lfloor>t - ammo_regen_timer tr\<rfloor>,
                   cur_ammo := Finite (min m (a + \<lfloor>t - ammo_regen_timer tr\<rfloor>)),
                   regenerating_ammo :=
                     (regenerating_ammo tr \<and> a + \<lfloor>t - ammo_regen_timer tr\<rfloor> < m)\<rparr>)"
proof -
  have acc: "ammo_regenerated tr = 0"
    using assms(1,3) by (auto simp: tracker_inv_def)
  have x: "0 \<le> t - ammo_regen_timer tr" using assms(6) by simp
  then have n: "py_int (t - ammo_regen_timer tr) = \<lfloor>t - ammo_regen_timer tr\<rfloor>"
      "0 \<le> \<lfloor>t - ammo_regen_timer tr\<rfloor>"
    by (simp_all add: py_int_nonneg)
  have r0: "ammo_regen (weapon tr) \<noteq> 0" using assms(2) by simp
  have small: "\<lfloor>t - ammo_regen_timer tr\<rfloor> = 0" if "\<not> 1 \<le> \<lfloor>t - ammo_regen_timer tr\<rfloor>"
    using that n(2) by linarith
  show ?thesis
    unfolding regenerate_ammo_finite [OF r0 assms(4,5)]
    using n small by (auto simp: assms(2,3) acc Let_def min_def)
qed

lemma regenerate_no_elapsed:
  assumes "tracker_inv tr"
  shows "regenerate_ammo tr (ammo_regen_timer tr) = Inr tr"
proof -
  from assms obtain a m where f: "cur_ammo tr = Finite a" "ammo (weapon tr) = Finite m"
      "0 \<le> a" "a \<le> m" "regenerating_ammo tr \<longrightarrow> a < m"
      "ammo_regen (weapon tr) \<noteq> 0"
      "ammo_regen_time tr = 1 / ammo_regen (weapon tr)" "0 \<le> ammo_regenerated tr"
      "ammo_regenerated tr = 0 \<or> of_int (ammo_regenerated tr) < reload_size (weapon tr)"
    by (rule tracker_invE) blast
  have acc: "ammo_regenerated tr = 0" if "reload_size (weapon tr) \<le> of_int (ammo_regenerated tr)"
    using that f(9) by auto
  have flag: "(regenerating_ammo tr \<and> a < m) = regenerating_ammo tr"
    using f(5) by blast
  have cap: "(if m \<le> a then m else a) = a" using f(4) by simp
  have "regenerate_ammo tr (ammo_regen_timer tr) =
          Inr (tr\<lparr>ammo_regenerated := ammo_regenerated tr,
                  ammo_regen_timer := ammo_regen_timer tr,
                  cur_ammo := cur_ammo tr,
                  regenerating_ammo := regenerating_ammo tr\<rparr>)"
    unfolding regenerate_ammo_finite [OF f(6) f(1,2)]
    using acc flag cap by (auto simp: Let_def py_int_zero f(1))
  then show ?thesis by simp
qed

lemma regenerate_twice_unit_rate:
  assumes "tracker_inv tr" "ammo_regen (weapon tr) = 1" "reload_size (weapon tr) = 1"
    and "ammo_regen_timer tr \<le> t1" "t1 \<le> t2"
  shows "bind_err (regenerate_ammo tr t1) (\<lambda>tr1. regenerate_ammo tr1 t2) = regenerate_ammo tr t2"
proof -
  from assms(1) obtain a m where f: "cur_ammo tr = Finite a" "ammo (weapon tr) = Finite m"
      "0 \<le> a" "a \<le> m"
    by (rule tracker_invE)
  let ?T = "ammo_regen_timer tr"
  let ?k1 = "\<lfloor>t1 - ?T\<rfloor>"
  let ?tr1 = "tr\<lparr>ammo_regenerated := 0,
                 ammo_regen_timer := ?T + of_int ?k1,
                 cur_ammo := Finite (min m (a + ?k1)),
                 regenerating_ammo := (regenerating_ammo tr \<and> a + ?k1 < m)\<rparr>"
  have one: "regenerate_ammo tr t1 = Inr ?tr1"
    by (rule regenerate_unit_rate [OF assms(1,2,3) f(1,2) assms(4)])
  have pos: "0 < ammo_regen (weapon tr)" using assms(2) by simp
  from regenerate_ammo_inv [OF assms(1) pos assms(4)] one
  have inv1: "tracker_inv ?tr1" by simp
  have k1: "0 \<le> ?k1" using assms(4) by simp
  have T1: "ammo_regen_timer ?tr1 \<le> t2"
  proof -
    have "of_int ?k1 \<le> t1 - ?T" by (rule of_int_floor_le)
    then show ?thesis using assms(5) by simp linarith
  qed
  have k2: "\<lfloor>t2 - (?T + of_int ?k1)\<rfloor> = \<lfloor>t2 - ?T\<rfloor> - ?k1"
  proof -
    have "t2 - (?T + of_int ?k1) = (t2 - ?T) - of_int ?k1" by simp
    then show ?thesis by (simp only: floor_diff_of_int)
  qed
  have k2pos: "0 \<le> \<lfloor>t2 - ?T\<rfloor> - ?k1"
    using assms(5) by (simp add: floor_mono)
  have two: "regenerate_ammo ?tr1 t2 =
      Inr (?tr1\<lparr>ammo_regenerated := 0,
                  ammo_regen_timer := ammo_regen_timer ?tr1 + of_int \<lfloor>t2 - ammo_regen_timer ?tr1\<rfloor>,
                  cur_ammo := Finite (min m (min m (a + ?k1) + \<lfloor>t2 - ammo_regen_timer ?tr1\<rfloor>)),
                  regenerating_ammo :=
                    (regenerating_ammo ?tr1
                     \<and> min m (a + ?k1) + \<lfloor>t2 - ammo_regen_timer ?tr1\<rfloor> < m)\<rparr>)"
    by (rule regenerate_unit_rate [OF inv1 _ _ _ _ T1]) (simp_all add: assms(2,3) f(2))
  have direct: "regenerate_ammo tr t2 =
      Inr (tr\<lparr>ammo_regenerated := 0,
               ammo_regen_timer := ?T + of_int \<lfloor>t2 - ?T\<rfloor>,
               cur_ammo := Finite (min m (a + \<lfloor>t2 - ?T\<rfloor>)),
               regenerating_ammo := (regenerating_ammo tr \<and> a + \<lfloor>t2 - ?T\<rfloor> < m)\<rparr>)"
    using assms(4,5) by (intro regenerate_unit_rate [OF assms(1,2,3) f(1,2)]) simp
  have amm: "min m (min m (a + ?k1) + (\<lfloor>t2 - ?T\<rfloor> - ?k1)) = min m (a + \<lfloor>t2 - ?T\<rfloor>)"
    using k2pos by (simp add: min_def)
  have flg: "(regenerating_ammo tr \<and> a + ?k1 < m
              \<and> min m (a + ?k1) + (\<lfloor>t2 - ?T\<rfloor> - ?k1) < m)
            = (regenerating_ammo tr \<and> a + \<lfloor>t2 - ?T\<rfloor> < m)"
    using k2pos by (auto simp: min_def)
  show ?thesis
    unfolding one direct
    by (simp add: bind_err_def two [simplified] k2 amm flg)
qed

text \<open>
  Claim C8. For a tracker in a state that the invariant \<open>tracker_inv\<close> describes (the
  states of a tracker from its construction on, see \<open>AmmoTracker_inv\<close>,
  \<open>regenerate_ammo_inv\<close> and \<open>simultaneous_shot_inv\<close>), \<^verbatim>\<open>regenerate_ammo\<close> at the time of
  the regeneration timer returns and leaves every field as it was. With a regeneration of
  one unit a second and a reload size of 1, the call one second after the timer advances
  the timer by one second and credits one unit, up to the ammunition of the weapon; a call
  at any time \<open>t\<close> not before the timer credits the whole seconds since the timer and
  advances the timer by them; and two calls in a row, at \<open>t1\<close> and then at \<open>t2\<close>, leave the
  tracker as the one call at \<open>t2\<close> does, so the fraction of a second left by the first
  call counts in the second.
\<close>

theorem regenerate_ammo_elapsed:
  assumes "tracker_inv tr"
  shows "regenerate_ammo tr (ammo_regen_timer tr) = Inr tr
       \<and> (ammo_regen (weapon tr) = 1 \<and> reload_size (weapon tr) = 1 \<longrightarrow>
            (\<exists>a m. cur_ammo tr = Finite a \<and> ammo (weapon tr) = Finite m
               \<and> ammo_regenerated tr = 0
               \<and> regenerate_ammo tr (ammo_regen_timer tr + 1)
                   = Inr (tr\<lparr>ammo_regen_timer := ammo_regen_timer tr + 1,
                            cur_ammo := Finite (min m (a + 1)),
                            regenerating_ammo := (regenerating_ammo tr \<and> a + 1 < m)\<rparr>)
               \<and> (\<forall>t. ammo_regen_timer tr \<le> t \<longrightarrow>
                     regenerate_ammo tr t
                       = Inr (tr\<lparr>ammo_regen_timer :=
                                   ammo_regen_timer tr + of_int \<lfloor>t - ammo_regen_timer tr\<rfloor>,
                                cur_ammo := Finite (min m (a + \<lfloor>t - ammo_regen_timer tr\<rfloor>)),
                                regenerating_ammo :=
                                  (regenerating_ammo tr
                                   \<and> a + \<lfloor>t - ammo_regen_timer tr\<rfloor> < m)\<rparr>))
               \<and> (\<forall>t1 t2. ammo_regen_timer tr \<le> t1 \<and> t1 \<le> t2 \<longrightarrow>
                     bind_err (regenerate_ammo tr t1) (\<lambda>tr1. regenerate_ammo tr1 t2)
                       = regenerate_ammo tr t2)))"
proof (intro conjI impI)
  show "regenerate_ammo tr (ammo_regen_timer tr) = Inr tr"
    by (rule regenerate_no_elapsed [OF assms])
next
  assume u: "ammo_regen (weapon tr) = 1 \<and> reload_size (weapon tr) = 1"
  from assms obtain a m where f: "cur_ammo tr = Finite a" "ammo (weapon tr) = Finite m"
    by (rule tracker_invE)
  have acc: "ammo_regenerated tr = 0"
    using assms u by (auto simp: tracker_inv_def)
  have gen: "regenerate_ammo tr t
      = Inr (tr\<lparr>ammo_regen_timer := ammo_regen_timer tr + of_int \<lfloor>t - ammo_regen_timer tr\<rfloor>,
               cur_ammo := Finite (min m (a + \<lfloor>t - ammo_regen_timer tr\<rfloor>)),
               regenerating_ammo :=
                 (regenerating_ammo tr \<and> a + \<lfloor>t - ammo_regen_timer tr\<rfloor> < m)\<rparr>)"
    if "ammo_regen_timer tr \<le> t" for t
  proof -
    have "tr\<lparr>ammo_regenerated := 0\<rparr> = tr" using acc by simp
    then show ?thesis
      using regenerate_unit_rate [OF assms conjunct1 [OF u] conjunct2 [OF u] f that]
      by (metis ammo_tracker.update_convs(4))
  qed
  have one: "regenerate_ammo tr (ammo_regen_timer tr + 1)
      = Inr (tr\<lparr>ammo_regen_timer := ammo_regen_timer tr + 1,
               cur_ammo := Finite (min m (a + 1)),
               regenerating_ammo := (regenerating_ammo tr \<and> a + 1 < m)\<rparr>)"
    using gen [of "ammo_regen_timer tr + 1"] by simp
  have two: "\<forall>t1 t2. ammo_regen_timer tr \<le> t1 \<and> t1 \<le> t2 \<longrightarrow>
      bind_err (regenerate_ammo tr t1) (\<lambda>tr1. regenerate_ammo tr1 t2) = regenerate_ammo tr t2"
    using regenerate_twice_unit_rate [OF assms conjunct1 [OF u] conjunct2 [OF u]] by blast
  show "\<exists>a m. cur_ammo tr = Finite a \<and> ammo (weapon tr) = Finite m
               \<and> ammo_regenerated tr = 0
               \<and> regenerate_ammo tr (ammo_regen_timer tr + 1)
                   = Inr (tr\<lparr>ammo_regen_timer := ammo_regen_timer tr + 1,
                            cur_ammo := Finite (min m (a + 1)),
                            regenerating_ammo := (regenerating_ammo tr \<and> a + 1 < m)\<rparr>)
               \<and> (\<forall>t. ammo_regen_timer tr \<le> t \<longrightarrow>
                     regenerate_ammo tr t
                       = Inr (tr\<lparr>ammo_regen_timer :=
                                   ammo_regen_timer tr + of_int \<lfloor>t - ammo_regen_timer tr\<rfloor>,
                                cur_ammo := Finite (min m (a + \<lfloor>t - ammo_regen_timer tr\<rfloor>)),
                                regenerating_ammo :=
                                  (regenerating_ammo tr
                                   \<and> a + \<lfloor>t - ammo_regen_timer tr\<rfloor> < m)\<rparr>))
               \<and> (\<forall>t1 t2. ammo_regen_timer tr \<le> t1 \<and> t1 \<le> t2 \<longrightarrow>
                     bind_err (regenerate_ammo tr t1) (\<lambda>tr1. regenerate_ammo tr1 t2)
                       = regenerate_ammo tr t2)"
    using f acc one gen two by blast
qed

theorem regenerate_ammo_elapsed_witness:
  "tracker_inv unit_tracker
   \<and> ammo_regen (weapon unit_tracker) = 1 \<and> reload_size (weapon unit_tracker) = 1
   \<and> regenerate_ammo unit_tracker (5/2) = Inr unit_tracker
   \<and> regenerate_ammo unit_tracker (7/2)
       = Inr (unit_tracker\<lparr>ammo_regen_timer := 7/2, cur_ammo := Finite 5\<rparr>)
   \<and> (5/2 \<le> (4::rat) \<and> (4::rat) \<le> 9/2)
   \<and> bind_err (regenerate_ammo unit_tracker 4) (\<lambda>tr1. regenerate_ammo tr1 (9/2))
       = Inr (unit_tracker\<lparr>ammo_regen_timer := 9/2, cur_ammo := Finite 6\<rparr>)"
proof -
  have h: "tracker_inv unit_tracker"
    by (simp add: tracker_inv_def unit_tracker_def)
  have u: "ammo_regen (weapon unit_tracker) = 1 \<and> reload_size (weapon unit_tracker) = 1"
    by (simp add: unit_tracker_def)
  have v: "ammo_regen_timer unit_tracker = 5/2" "cur_ammo unit_tracker = Finite 4"
      "ammo (weapon unit_tracker) = Finite 10" "regenerating_ammo unit_tracker"
    by (simp_all add: unit_tracker_def)
  have fl: "\<lfloor>2 :: rat\<rfloor> = 2" by simp
  from regenerate_ammo_elapsed [OF h] u
  obtain a m where
    r: "regenerate_ammo unit_tracker (ammo_regen_timer unit_tracker) = Inr unit_tracker"
      "cur_ammo unit_tracker = Finite a" "ammo (weapon unit_tracker) = Finite m"
      "regenerate_ammo unit_tracker (ammo_regen_timer unit_tracker + 1)
         = Inr (unit_tracker\<lparr>ammo_regen_timer := ammo_regen_timer unit_tracker + 1,
                  cur_ammo := Finite (min m (a + 1)),
                  regenerating_ammo := (regenerating_ammo unit_tracker \<and> a + 1 < m)\<rparr>)"
      "\<forall>t. ammo_regen_timer unit_tracker \<le> t \<longrightarrow>
          regenerate_ammo unit_tracker t
            = Inr (unit_tracker\<lparr>ammo_regen_timer :=
                     ammo_regen_timer unit_tracker + of_int \<lfloor>t - ammo_regen_timer unit_tracker\<rfloor>,
                   cur_ammo := Finite (min m (a + \<lfloor>t - ammo_regen_timer unit_tracker\<rfloor>)),
                   regenerating_ammo :=
                     (regenerating_ammo unit_tracker
                      \<and> a + \<lfloor>t - ammo_regen_timer unit_tracker\<rfloor> < m)\<rparr>)"
      "\<forall>t1 t2. ammo_regen_timer unit_tracker \<le> t1 \<and> t1 \<le> t2 \<longrightarrow>
          bind_err (regenerate_ammo unit_tracker t1) (\<lambda>tr1. regenerate_ammo tr1 t2)
            = regenerate_ammo unit_tracker t2"
    by blast
  have am: "a = 4" "m = 10" using r(2,3) v by simp_all
  have c1: "regenerate_ammo unit_tracker (5/2) = Inr unit_tracker"
    using r(1) by (simp add: v)
  have c2: "regenerate_ammo unit_tracker (7/2)
       = Inr (unit_tracker\<lparr>ammo_regen_timer := 7/2, cur_ammo := Finite 5\<rparr>)"
    using r(4) by (simp add: v am)
  have "regenerate_ammo unit_tracker (9/2)
       = Inr (unit_tracker\<lparr>ammo_regen_timer := 9/2, cur_ammo := Finite 6\<rparr>)"
    using r(5) [rule_format, of "9/2"] by (simp add: v am fl)
  moreover have "bind_err (regenerate_ammo unit_tracker 4) (\<lambda>tr1. regenerate_ammo tr1 (9/2))
      = regenerate_ammo unit_tracker (9/2)"
    using r(6) [rule_format, of 4 "9/2"] by (simp add: v)
  ultimately show ?thesis
    using h u c1 c2 by simp
qed

subsection \<open>The ammunition during a run\<close>

lemma regenerate_ammo_bounds:
  assumes "tracker_inv tr" "0 < ammo_regen (weapon tr)" "ammo_regen_timer tr \<le> t"
    and "cur_ammo tr = Finite a" "ammo (weapon tr) = Finite m"
  shows "\<exists>tr' a'. regenerate_ammo tr t = Inr tr' \<and> cur_ammo tr' = Finite a'
           \<and> a \<le> a' \<and> a' \<le> m"
proof -
  have f: "0 \<le> a" "a \<le> m" "ammo_regen (weapon tr) \<noteq> 0" "0 \<le> ammo_regenerated tr"
    using assms(1,4,5) by (auto simp: tracker_inv_def)
  have x: "0 \<le> t - ammo_regen_timer tr" using assms(3) by simp
  have n: "0 \<le> py_int (ammo_regen (weapon tr) * (t - ammo_regen_timer tr))"
    by (rule whole_units(1) [OF assms(2) x])
  show ?thesis
    using f n by (simp add: regenerate_ammo_finite [OF f(3) assms(4,5)] Let_def)
qed

lemma regenerate_if_due_inv:
  assumes "tracker_inv (tracker st)" "0 < ammo_regen (weapon (tracker st))"
    and "cur_ammo (tracker st) = Finite a" "ammo (weapon (tracker st)) = Finite m"
  shows "\<exists>st' a'. regenerate_if_due st = Inr st' \<and> tracker_inv (tracker st')
           \<and> weapon (tracker st') = weapon (tracker st)
           \<and> cur_ammo (tracker st') = Finite a' \<and> a \<le> a' \<and> a' \<le> m"
proof (cases "should_regenerate_ammo (tracker st) (time st)")
  case False
  then show ?thesis
    using assms by (auto simp: regenerate_if_due_def tracker_inv_def)
next
  case True
  have "ammo_regen_time (tracker st) = 1 / ammo_regen (weapon (tracker st))"
    using assms(1) by (simp add: tracker_inv_def)
  then have "0 < ammo_regen_time (tracker st)" using assms(2) by simp
  then have le: "ammo_regen_timer (tracker st) \<le> time st"
    using True by (simp add: should_regenerate_ammo_def)
  from regenerate_ammo_inv [OF assms(1,2) le]
  obtain tr' where tr': "regenerate_ammo (tracker st) (time st) = Inr tr'" "tracker_inv tr'"
      "weapon tr' = weapon (tracker st)"
    by blast
  from regenerate_ammo_bounds [OF assms(1,2) le assms(3,4)] tr'(1)
  obtain a' where "cur_ammo tr' = Finite a'" "a \<le> a'" "a' \<le> m" by auto
  then show ?thesis
    using True tr' by (simp add: regenerate_if_due_def bind_err_def)
qed

lemma gun_run_inv:
  assumes "gun_run w travel st" and "ammo w = Finite m" and "0 \<le> m" and "0 < ammo_regen w"
  shows "tracker_inv (tracker st) \<and> weapon (tracker st) = w"
  using assms(1)
proof (induction rule: gun_run.induct)
  case (run_start tr)
  then show ?case
    using AmmoTracker_inv [OF assms(2,3)] assms(4) by auto
next
  case (run_charge_up st)
  then show ?case by simp
next
  case (run_regenerate st st')
  obtain a where a: "cur_ammo (tracker st) = Finite a"
    using run_regenerate.IH by (auto elim: tracker_invE)
  from regenerate_if_due_inv [of st a m] run_regenerate a assms(2,4)
  show ?case by auto
next
  case (run_shot st st')
  from simultaneous_shot_inv [of st travel] run_shot show ?case by auto
next
  case (run_charge_down st)
  then show ?case by simp
qed

text \<open>The run of the loop stays within \<open>gun_run\<close>.\<close>

lemma simultaneous_shots_run:
  "gun_run w travel st \<Longrightarrow> simultaneous_shots travel n st = Inr st' \<Longrightarrow> gun_run w travel st'"
proof (induction n arbitrary: st)
  case 0
  then show ?case by simp
next
  case (Suc n)
  then show ?case
    by (auto simp: bind_err_def split: sum.splits intro: gun_run.run_shot)
qed

lemma successive_shots_same: "successive_shots n st = Inr st' \<Longrightarrow> st' = st"
  by (induction n) (auto split: if_splits)

lemma shot_pattern_run:
  "gun_run w travel st \<Longrightarrow> shot_pattern w travel st = Inr st' \<Longrightarrow> gun_run w travel st'"
  by (auto simp: shot_pattern_def split: if_splits
        dest: simultaneous_shots_run successive_shots_same)

lemma gun_cycle_run:
  assumes "gun_run w travel st" "gun_cycle w travel st = Inr st'"
  shows "gun_run w travel st'"
proof -
  from assms(2) obtain st1 st2 where
    s: "regenerate_if_due (st\<lparr>time := time st + charge_up w\<rparr>) = Inr st1"
       "shot_pattern w travel st1 = Inr st2"
       "regenerate_if_due (st2\<lparr>time := time st2 + charge_down w\<rparr>) = Inr st'"
    by (auto simp: gun_cycle_def bind_err_def split: sum.splits)
  have "gun_run w travel st1"
    using gun_run.run_regenerate [OF gun_run.run_charge_up [OF assms(1)] s(1)] .
  then have "gun_run w travel st2" by (rule shot_pattern_run [OF _ s(2)])
  then show ?thesis
    using gun_run.run_regenerate [OF gun_run.run_charge_down s(3)] by blast
qed

lemma gun_loop_run_aux:
  assumes "gun_loop w travel st = Some r"
  shows "\<forall>st'. r = Inr st' \<longrightarrow> gun_run w travel st \<longrightarrow> gun_run w travel st'"
  using assms
proof (rule gun_loop.raw_induct [rotated,
      where P = "\<lambda>w travel st r.
        \<forall>st'. r = Inr st' \<longrightarrow> gun_run w travel st \<longrightarrow> gun_run w travel st'"])
  fix f w travel st r
  assume IH: "\<And>w travel st r. f w travel st = Some r \<Longrightarrow>
      \<forall>st'. r = Inr st' \<longrightarrow> gun_run w travel st \<longrightarrow> gun_run w travel st'"
    and body: "(if time st < time_limit
                then case gun_cycle w travel st of
                       Inl e \<Rightarrow> Some (Inl e)
                     | Inr st' \<Rightarrow> f w travel st'
                else Some (Inr st)) = Some r"
  show "\<forall>st'. r = Inr st' \<longrightarrow> gun_run w travel st \<longrightarrow> gun_run w travel st'"
  proof (intro allI impI)
    fix st' assume r: "r = Inr st'" and run: "gun_run w travel st"
    show "gun_run w travel st'"
    proof (cases "time st < time_limit")
      case False
      then show ?thesis using body r run by simp
    next
      case True
      then obtain st1 where c: "gun_cycle w travel st = Inr st1" and f: "f w travel st1 = Some r"
        using body r by (auto split: sum.splits)
      from IH [OF f] r gun_cycle_run [OF run c] show ?thesis by blast
    qed
  qed
qed

lemma gun_loop_run:
  "gun_loop w travel st = Some (Inr st') \<Longrightarrow> gun_run w travel st \<Longrightarrow> gun_run w travel st'"
  using gun_loop_run_aux by blast

lemma simultaneous_shot_finite:
  "cur_ammo (tracker st) = Finite a \<Longrightarrow>
   \<exists>st1. simultaneous_shot travel st = Inr st1
     \<and> cur_ammo (tracker st1) = Finite (if a = 0 then 0 else a - 1)
     \<and> (if a = 0 then st1 = st else hit_times st1 = hit_times st @ [time st + travel])"
  by (simp add: simultaneous_shot_def Let_def)

text \<open>
  Claim C10. For a weapon of finite nonnegative ammunition \<open>m\<close> and a positive regeneration
  rate, in every state of a run (\<open>gun_run\<close>: after the construction of the tracker and
  after every statement of the loop that changes the state) the ammunition of the tracker
  is an integer from 0 to \<open>m\<close>. In such a state, a pass of the firing loop returns, leaves
  the state as it is when the ammunition is 0 and otherwise takes one unit and records one
  hit; a regeneration check returns and leaves an ammunition that is no less than before
  and at most \<open>m\<close>. The state after a cycle of the loop and the state in which the loop
  ends are states of the run again.
\<close>

theorem gun_run_ammo_bounds:
  assumes "ammo w = Finite m" and "0 \<le> m" and "0 < ammo_regen w"
    and "gun_run w travel st"
  shows "(\<exists>a. cur_ammo (tracker st) = Finite a \<and> 0 \<le> a \<and> a \<le> m
            \<and> (\<exists>st1. simultaneous_shot travel st = Inr st1
                  \<and> cur_ammo (tracker st1) = Finite (if a = 0 then 0 else a - 1)
                  \<and> (if a = 0 then st1 = st
                      else hit_times st1 = hit_times st @ [time st + travel]))
            \<and> (\<exists>st2 a2. regenerate_if_due st = Inr st2
                  \<and> cur_ammo (tracker st2) = Finite a2 \<and> a \<le> a2 \<and> a2 \<le> m))
       \<and> (\<forall>st'. gun_cycle w travel st = Inr st' \<longrightarrow> gun_run w travel st')
       \<and> (\<forall>st'. gun_loop w travel st = Some (Inr st') \<longrightarrow> gun_run w travel st')"
proof -
  have inv: "tracker_inv (tracker st)" and wp: "weapon (tracker st) = w"
    using gun_run_inv [OF assms(4,1,2,3)] by simp_all
  from inv obtain a m' where a: "cur_ammo (tracker st) = Finite a"
      "ammo (weapon (tracker st)) = Finite m'" "0 \<le> a" "a \<le> m'"
    by (rule tracker_invE)
  have m': "m' = m" using a(2) wp assms(1) by simp
  have shot: "\<exists>st1. simultaneous_shot travel st = Inr st1
                  \<and> cur_ammo (tracker st1) = Finite (if a = 0 then 0 else a - 1)
                  \<and> (if a = 0 then st1 = st
                      else hit_times st1 = hit_times st @ [time st + travel])"
    by (rule simultaneous_shot_finite [OF a(1)])
  have regen: "\<exists>st2 a2. regenerate_if_due st = Inr st2
                  \<and> cur_ammo (tracker st2) = Finite a2 \<and> a \<le> a2 \<and> a2 \<le> m"
    using regenerate_if_due_inv [OF inv _ a(1), of m] wp assms(1,3) by auto
  have cyc: "\<forall>st'. gun_cycle w travel st = Inr st' \<longrightarrow> gun_run w travel st'"
    using gun_cycle_run [OF assms(4)] by blast
  have lp: "\<forall>st'. gun_loop w travel st = Some (Inr st') \<longrightarrow> gun_run w travel st'"
    using gun_loop_run assms(4) by blast
  show ?thesis
    using a(1,3,4) m' shot regen cyc lp by blast
qed

lemma slow_gun_tracker: "AmmoTracker slow_gun = Inr (tracker slow_gun_start)"
  by (simp add: AmmoTracker_def slow_gun_def slow_gun_start_def)

theorem gun_run_ammo_bounds_witness:
  "ammo slow_gun = Finite 1 \<and> (0::int) \<le> 1 \<and> 0 < ammo_regen slow_gun
   \<and> gun_run slow_gun (3/2) slow_gun_start
   \<and> cur_ammo (tracker slow_gun_start) = Finite 1
   \<and> (\<exists>st1. simultaneous_shot (3/2) slow_gun_start = Inr st1
          \<and> cur_ammo (tracker st1) = Finite 0 \<and> hit_times st1 = [3/2])"
proof -
  have h1: "ammo slow_gun = Finite 1" by (simp add: slow_gun_def)
  have h2: "(0::int) \<le> 1" by simp
  have h3: "0 < ammo_regen slow_gun" by (simp add: slow_gun_def)
  have "gun_run slow_gun (3/2) \<lparr>time = 0, hit_times = [], tracker = tracker slow_gun_start\<rparr>"
    by (rule gun_run.run_start [OF slow_gun_tracker])
  then have h4: "gun_run slow_gun (3/2) slow_gun_start"
    by (simp add: slow_gun_start_def)
  have v: "cur_ammo (tracker slow_gun_start) = Finite 1" "hit_times slow_gun_start = []"
      "time slow_gun_start = 0"
    by (simp_all add: slow_gun_start_def)
  from gun_run_ammo_bounds [OF h1 h2 h3 h4]
  obtain a st1 where "cur_ammo (tracker slow_gun_start) = Finite a"
      "simultaneous_shot (3/2) slow_gun_start = Inr st1"
      "cur_ammo (tracker st1) = Finite (if a = 0 then 0 else a - 1)"
      "if a = 0 then st1 = slow_gun_start
       else hit_times st1 = hit_times slow_gun_start @ [time slow_gun_start + 3/2]"
    by blast
  then show ?thesis
    using h1 h3 h4 by (auto simp: v)
qed

subsection \<open>The end of the loop\<close>

lemma regenerate_ammo_frame:
  "regenerate_ammo tr t = Inr tr' \<Longrightarrow> weapon tr' = weapon tr"
  by (auto simp: regenerate_ammo_def Let_def bind_err_def split: if_splits sum.splits)

lemma regenerate_if_due_frame:
  "regenerate_if_due st = Inr st' \<Longrightarrow>
   time st' = time st \<and> hit_times st' = hit_times st
   \<and> weapon (tracker st') = weapon (tracker st)"
  by (auto simp: regenerate_if_due_def bind_err_def split: if_splits sum.splits
        dest: regenerate_ammo_frame)

lemma simultaneous_shot_frame:
  "simultaneous_shot travel st = Inr st' \<Longrightarrow>
   time st' = time st \<and> weapon (tracker st') = weapon (tracker st)"
  by (auto simp: simultaneous_shot_def Let_def split: ammo_count.splits if_splits)

lemma simultaneous_shots_frame:
  "simultaneous_shots travel n st = Inr st' \<Longrightarrow>
   time st' = time st \<and> weapon (tracker st') = weapon (tracker st)"
proof (induction n arbitrary: st)
  case 0
  then show ?case by simp
next
  case (Suc n)
  then obtain st1 where s: "simultaneous_shot travel st = Inr st1"
      "simultaneous_shots travel n st1 = Inr st'"
    by (auto simp: bind_err_def split: sum.splits)
  from simultaneous_shot_frame [OF s(1)] Suc.IH [OF s(2)] show ?case by simp
qed

lemma shot_pattern_frame:
  "shot_pattern w travel st = Inr st' \<Longrightarrow>
   time st' = time st \<and> weapon (tracker st') = weapon (tracker st)"
  by (auto simp: shot_pattern_def split: if_splits
        dest: simultaneous_shots_frame successive_shots_same)

lemma gun_cycle_frame:
  assumes "gun_cycle w travel st = Inr st'"
  shows "time st' = time st + charge_up w + charge_down w"
    and "weapon (tracker st') = weapon (tracker st)"
proof -
  from assms obtain st1 st2 where
    s: "regenerate_if_due (st\<lparr>time := time st + charge_up w\<rparr>) = Inr st1"
       "shot_pattern w travel st1 = Inr st2"
       "regenerate_if_due (st2\<lparr>time := time st2 + charge_down w\<rparr>) = Inr st'"
    by (auto simp: gun_cycle_def bind_err_def split: sum.splits)
  from regenerate_if_due_frame [OF s(1)] shot_pattern_frame [OF s(2)]
    regenerate_if_due_frame [OF s(3)]
  show "time st' = time st + charge_up w + charge_down w"
    and "weapon (tracker st') = weapon (tracker st)"
    by simp_all
qed

lemma cycles_left:
  fixes t cu cd :: rat
  assumes "0 \<le> cu" "0 < cd" "t < L"
  shows "nat \<lceil>(L - (t + cu + cd)) / cd\<rceil> < nat \<lceil>(L - t) / cd\<rceil>"
proof -
  have "(L - (t + cu + cd)) / cd = (L - t) / cd - cu / cd - 1"
    using assms(2) by (simp add: field_simps)
  moreover have "0 \<le> cu / cd" using assms(1,2) by simp
  ultimately have "(L - (t + cu + cd)) / cd \<le> (L - t) / cd - 1" by linarith
  then have "\<lceil>(L - (t + cu + cd)) / cd\<rceil> \<le> \<lceil>(L - t) / cd - 1\<rceil>" by (rule ceiling_mono)
  then have le: "\<lceil>(L - (t + cu + cd)) / cd\<rceil> \<le> \<lceil>(L - t) / cd\<rceil> - 1" by simp
  have "0 < (L - t) / cd" using assms(2,3) by simp
  then have "0 < \<lceil>(L - t) / cd\<rceil>" by simp
  then show ?thesis using le by linarith
qed

lemma gun_loop_terminates:
  assumes "0 \<le> charge_up w" "0 < charge_down w"
  shows "\<exists>r. gun_loop w travel st = Some r
           \<and> (\<forall>st'. r = Inr st' \<longrightarrow>
                 weapon (tracker st') = weapon (tracker st) \<and> time_limit \<le> time st')"
proof (induction "nat \<lceil>(time_limit - time st) / charge_down w\<rceil>" arbitrary: st rule: less_induct)
  case less
  show ?case
  proof (cases "time st < time_limit")
    case False
    then show ?thesis by (subst gun_loop.simps) simp
  next
    case True
    show ?thesis
    proof (cases "gun_cycle w travel st")
      case (Inl e)
      then show ?thesis using True by (subst gun_loop.simps) simp
    next
      case (Inr st1)
      note f = gun_cycle_frame [OF Inr]
      have "nat \<lceil>(time_limit - time st1) / charge_down w\<rceil>
              < nat \<lceil>(time_limit - time st) / charge_down w\<rceil>"
        unfolding f(1) by (rule cycles_left [OF assms True])
      from less [OF this] obtain r where
        r: "gun_loop w travel st1 = Some r"
           "\<forall>st'. r = Inr st' \<longrightarrow>
              weapon (tracker st') = weapon (tracker st1) \<and> time_limit \<le> time st'"
        by blast
      have "gun_loop w travel st = Some r"
        using True Inr r(1) by (subst gun_loop.simps) simp
      then show ?thesis using r(2) f(2) by simp
    qed
  qed
qed

lemma MINIMUM_REFIRE_DELAY_pos: "0 < MINIMUM_REFIRE_DELAY"
  by (simp add: MINIMUM_REFIRE_DELAY_def)

lemma Weapon_GUN_charge_down:
  assumes "Weapon data = Inr w" "mode w = Some GUN"
  shows "MINIMUM_REFIRE_DELAY \<le> charge_down w"
  using assms
  by (auto simp: Weapon_def bind_err_def Let_def split: sum.splits)

lemma regenerate_if_due_finite:
  assumes "finite_ammo (tracker st)"
  shows "\<exists>st'. regenerate_if_due st = Inr st' \<and> finite_ammo (tracker st')"
proof -
  from assms obtain a m where f: "ammo_regen (weapon (tracker st)) \<noteq> 0"
      "cur_ammo (tracker st) = Finite a" "ammo (weapon (tracker st)) = Finite m"
    by (cases "cur_ammo (tracker st)"; cases "ammo (weapon (tracker st))")
       (auto simp: finite_ammo_def)
  show ?thesis
    using f
    by (simp add: regenerate_if_due_def regenerate_ammo_finite [OF f] bind_err_def Let_def
          finite_ammo_def)
qed

lemma simultaneous_shot_finite_ammo:
  assumes "finite_ammo (tracker st)"
  shows "\<exists>st'. simultaneous_shot travel st = Inr st' \<and> finite_ammo (tracker st')"
  using assms
  by (cases "cur_ammo (tracker st)") (auto simp: simultaneous_shot_def Let_def finite_ammo_def)

lemma simultaneous_shots_finite_ammo:
  "finite_ammo (tracker st) \<Longrightarrow>
   \<exists>st'. simultaneous_shots travel n st = Inr st' \<and> finite_ammo (tracker st')"
proof (induction n arbitrary: st)
  case 0
  then show ?case by simp
next
  case (Suc n)
  from simultaneous_shot_finite_ammo [OF Suc.prems, of travel]
  obtain st1 where s: "simultaneous_shot travel st = Inr st1" "finite_ammo (tracker st1)"
    by blast
  from Suc.IH [OF s(2)] s(1) show ?case by (simp add: bind_err_def)
qed

lemma gun_cycle_finite_ammo:
  assumes "finite_ammo (tracker st)" "burst_delay w = 0"
  shows "\<exists>st'. gun_cycle w travel st = Inr st' \<and> finite_ammo (tracker st')"
proof -
  from regenerate_if_due_finite [of "st\<lparr>time := time st + charge_up w\<rparr>"] assms(1)
  obtain st1 where s1: "regenerate_if_due (st\<lparr>time := time st + charge_up w\<rparr>) = Inr st1"
      "finite_ammo (tracker st1)"
    by auto
  from simultaneous_shots_finite_ammo [OF s1(2), of travel "nat (py_int (burst_size w))"]
  obtain st2 where s2: "shot_pattern w travel st1 = Inr st2" "finite_ammo (tracker st2)"
    using assms(2) by (auto simp: shot_pattern_def)
  from regenerate_if_due_finite [of "st2\<lparr>time := time st2 + charge_down w\<rparr>"] s2(2)
  obtain st3 where s3: "regenerate_if_due (st2\<lparr>time := time st2 + charge_down w\<rparr>) = Inr st3"
      "finite_ammo (tracker st3)"
    by auto
  show ?thesis
    using s1(1) s2(1) s3 by (simp add: gun_cycle_def bind_err_def)
qed

lemma gun_loop_no_error:
  assumes "gun_loop w travel st = Some r" and "burst_delay w = 0"
  shows "finite_ammo (tracker st) \<longrightarrow> (\<exists>st'. r = Inr st')"
proof -
  have "w = w \<longrightarrow> finite_ammo (tracker st) \<longrightarrow> (\<exists>st'. r = Inr st')"
    using assms(1)
  proof (rule gun_loop.raw_induct [rotated,
      where P = "\<lambda>w' travel st r.
        w' = w \<longrightarrow> finite_ammo (tracker st) \<longrightarrow> (\<exists>st'. r = Inr st')"])
  fix f w' travel st r
  assume IH: "\<And>w' travel st r. f w' travel st = Some r \<Longrightarrow>
      w' = w \<longrightarrow> finite_ammo (tracker st) \<longrightarrow> (\<exists>st'. r = Inr st')"
    and body: "(if time st < time_limit
                then case gun_cycle w' travel st of
                       Inl e \<Rightarrow> Some (Inl e)
                     | Inr st' \<Rightarrow> f w' travel st'
                else Some (Inr st)) = Some r"
  show "w' = w \<longrightarrow> finite_ammo (tracker st) \<longrightarrow> (\<exists>st'. r = Inr st')"
  proof (intro impI)
    assume w: "w' = w" and fin: "finite_ammo (tracker st)"
    show "\<exists>st'. r = Inr st'"
    proof (cases "time st < time_limit")
      case False
      then show ?thesis using body by auto
    next
      case True
      from gun_cycle_finite_ammo [OF fin assms(2), of travel]
      obtain st1 where c: "gun_cycle w travel st = Inr st1" "finite_ammo (tracker st1)"
        by blast
      then have "f w travel st1 = Some r" using body True w by simp
      from IH [OF this] c(2) show ?thesis by simp
    qed
  qed
  qed
  then show ?thesis by simp
qed

lemma length_hit_buckets: "length (hit_buckets ts) = 100"
  by (simp add: hit_buckets_def time_intervals_def time_limit_def time_interval_def py_int_def)


lemma AmmoTracker_Inr:
  "AmmoTracker w = Inr tr \<Longrightarrow> weapon tr = w \<and> cur_ammo tr = ammo w \<and> ammo_regen w \<noteq> 0"
  by (auto simp: AmmoTracker_def split: if_splits)

lemma gun_hit_times_terminates:
  assumes "0 \<le> charge_up w" "0 < charge_down w"
  shows "\<exists>r. gun_hit_times w distance = Some r"
proof (cases "proj_speed w = 0")
  case True
  then show ?thesis by (simp add: gun_hit_times_def)
next
  case False
  show ?thesis
  proof (cases "AmmoTracker w")
    case (Inl e)
    then show ?thesis using False by (simp add: gun_hit_times_def)
  next
    case (Inr tr)
    from gun_loop_terminates [OF assms]
    obtain r where "gun_loop w (distance / proj_speed w)
                      \<lparr>time = 0, hit_times = [], tracker = tr\<rparr> = Some r"
      by blast
    then show ?thesis using False Inr by (simp add: gun_hit_times_def)
  qed
qed

lemma gun_hit_sequence_no_error:
  assumes "0 \<le> charge_up w" "0 < charge_down w" "burst_delay w = 0" "proj_speed w \<noteq> 0"
    "ammo_regen w \<noteq> 0" "ammo w \<noteq> UNLIMITED"
  shows "\<exists>bs. gun_hit_sequence w distance = Some (Inr bs) \<and> length bs = 100"
proof -
  obtain tr where tr: "AmmoTracker w = Inr tr" "finite_ammo tr"
    using assms(5,6) by (simp add: AmmoTracker_def finite_ammo_def)
  let ?st = "\<lparr>time = 0, hit_times = [], tracker = tr\<rparr>"
  from gun_loop_terminates [OF assms(1,2)]
  obtain r where r: "gun_loop w (distance / proj_speed w) ?st = Some r" by blast
  from gun_loop_no_error [OF r assms(3)] tr(2)
  obtain st' where "r = Inr st'" by auto
  then have "gun_hit_sequence w distance = Some (Inr (hit_buckets (hit_times st')))"
    using r tr(1) assms(4) by (simp add: gun_hit_sequence_def gun_hit_times_def)
  then show ?thesis by (simp add: length_hit_buckets)
qed

text \<open>
  Claim C7. For a weapon that \<^verbatim>\<open>Weapon.__init__\<close> builds in mode GUN, with a nonnegative
  charge up: the charge down is at least the minimum refire delay, and a cycle of the loop
  that raises nothing advances the time by at least that delay; \<^verbatim>\<open>_gun_hit_sequence\<close>
  and \<^verbatim>\<open>_hit_sequence\<close> return (a list, or an exception that the run raises); the loop,
  started as \<^verbatim>\<open>_gun_hit_sequence\<close> starts it, ends, and when it ends without an exception
  the time has reached the limit and the weapon that the tracker refers to is the weapon
  as it was; and when moreover the burst delay is 0, the projectile speed and the
  regeneration rate are not zero and the ammunition is an integer, no exception is raised
  and the result is a list of 100 counts.
\<close>

theorem gun_hit_sequence_terminates:
  assumes "Weapon data = Inr w" and "mode w = Some GUN" and "0 \<le> charge_up w"
  shows "MINIMUM_REFIRE_DELAY \<le> charge_down w
       \<and> (\<forall>travel st st'. gun_cycle w travel st = Inr st' \<longrightarrow>
             time st + MINIMUM_REFIRE_DELAY \<le> time st')
       \<and> (\<exists>r. gun_hit_sequence w distance = Some r)
       \<and> (\<exists>r. hit_sequence w distance = Some r)
       \<and> (\<forall>tr. AmmoTracker w = Inr tr \<longrightarrow>
             (\<exists>r. gun_loop w (distance / proj_speed w)
                     \<lparr>time = 0, hit_times = [], tracker = tr\<rparr> = Some r
                \<and> (\<forall>st'. r = Inr st' \<longrightarrow> weapon (tracker st') = w \<and> time_limit \<le> time st')))
       \<and> (burst_delay w = 0 \<and> proj_speed w \<noteq> 0 \<and> ammo_regen w \<noteq> 0 \<and> ammo w \<noteq> UNLIMITED
            \<longrightarrow> (\<exists>bs. gun_hit_sequence w distance = Some (Inr bs) \<and> length bs = 100))"
proof -
  have cd: "MINIMUM_REFIRE_DELAY \<le> charge_down w"
    by (rule Weapon_GUN_charge_down [OF assms(1,2)])
  then have pos: "0 < charge_down w" using MINIMUM_REFIRE_DELAY_pos by linarith
  have adv: "\<forall>travel st st'. gun_cycle w travel st = Inr st' \<longrightarrow>
             time st + MINIMUM_REFIRE_DELAY \<le> time st'"
    using gun_cycle_frame(1) cd assms(3) by (auto simp: add.assoc intro: add_left_mono)
  from gun_hit_times_terminates [OF assms(3) pos, of distance]
  have gun: "\<exists>r. gun_hit_sequence w distance = Some r"
    by (auto simp: gun_hit_sequence_def)
  then have hit: "\<exists>r. hit_sequence w distance = Some r"
    using assms(2) by (auto simp: hit_sequence_def)
  have frame: "\<exists>r. gun_loop w (distance / proj_speed w)
                     \<lparr>time = 0, hit_times = [], tracker = tr\<rparr> = Some r
                \<and> (\<forall>st'. r = Inr st' \<longrightarrow> weapon (tracker st') = w \<and> time_limit \<le> time st')"
    if "AmmoTracker w = Inr tr" for tr
    using gun_loop_terminates [OF assms(3) pos,
        of "distance / proj_speed w" "\<lparr>time = 0, hit_times = [], tracker = tr\<rparr>"]
      AmmoTracker_Inr [OF that]
    by simp
  have ok: "\<exists>bs. gun_hit_sequence w distance = Some (Inr bs) \<and> length bs = 100"
    if "burst_delay w = 0 \<and> proj_speed w \<noteq> 0 \<and> ammo_regen w \<noteq> 0 \<and> ammo w \<noteq> UNLIMITED"
    using gun_hit_sequence_no_error [OF assms(3) pos] that by blast
  show ?thesis
    using cd adv gun hit frame ok by blast
qed

lemma Weapon_slow_gun: "Weapon slow_gun_data = Inr slow_gun"
  by (simp add: Weapon_def slow_gun_data_def slow_gun_def num_item_def num_item_or_def
        determine_mode_def get_item_def bind_err_def truthy_def mode_is_BEAM_def py_int_def
        MINIMUM_REFIRE_DELAY_def Let_def)

lemma slow_gun_times: "gun_hit_times slow_gun 3 = Some (Inr [3/2, 103/2])"
  by code_simp

theorem gun_hit_sequence_terminates_witness:
  "Weapon slow_gun_data = Inr slow_gun \<and> mode slow_gun = Some GUN \<and> 0 \<le> charge_up slow_gun
   \<and> burst_delay slow_gun = 0 \<and> proj_speed slow_gun \<noteq> 0 \<and> ammo_regen slow_gun \<noteq> 0
   \<and> ammo slow_gun \<noteq> UNLIMITED
   \<and> MINIMUM_REFIRE_DELAY \<le> charge_down slow_gun
   \<and> (\<exists>bs. gun_hit_sequence slow_gun 3 = Some (Inr bs) \<and> length bs = 100)"
proof -
  have h2: "mode slow_gun = Some GUN" and h3: "0 \<le> charge_up slow_gun"
    by (simp_all add: slow_gun_def)
  have v: "burst_delay slow_gun = 0 \<and> proj_speed slow_gun \<noteq> 0 \<and> ammo_regen slow_gun \<noteq> 0
             \<and> ammo slow_gun \<noteq> UNLIMITED"
    by (simp add: slow_gun_def)
  from gun_hit_sequence_terminates [OF Weapon_slow_gun h2 h3, of 3] v
  show ?thesis using Weapon_slow_gun h2 h3 by blast
qed

subsection \<open>The hit counts\<close>

lemma py_int_eq_pos:
  assumes "0 < k"
  shows "(py_int t = k) = (of_int k \<le> t \<and> t < of_int k + 1)"
proof (cases "0 \<le> t")
  case True
  then show ?thesis by (simp add: py_int_def floor_eq_iff)
next
  case False
  then have c: "\<lceil>t\<rceil> \<le> 0" by (simp add: ceiling_le_iff)
  have "py_int t = \<lceil>t\<rceil>" using False by (simp add: py_int_def)
  then have "py_int t \<noteq> k" using c assms by linarith
  moreover have "\<not> (of_int k \<le> t)" using False assms by simp
  ultimately show ?thesis by simp
qed

lemma py_int_unit_interval: "0 \<le> t \<Longrightarrow> t < 1 \<Longrightarrow> py_int t = 0"
  by (simp add: py_int_def floor_eq_iff)

lemma hit_buckets_first:
  "hit_buckets ts ! 0 = length (filter (\<lambda>t. 0 \<le> py_int t \<and> py_int t \<le> 1) ts)"
proof -
  have "(of_int (py_int t) \<le> (1::rat)) = (py_int t \<le> 1)" for t
    using of_int_le_iff [of "py_int t" 1, where ?'a = rat] by simp
  then show ?thesis by (simp add: hit_buckets_def time_interval_def)
qed

lemma hit_buckets_nth:
  assumes "1 \<le> k" "k < 100"
  shows "hit_buckets ts ! k = length (filter (in_second k) ts)"
proof -
  have ti: "time_intervals = 100"
    by (simp add: time_intervals_def time_limit_def time_interval_def py_int_def)
  have "hit_buckets ts ! k =
      length (filter (\<lambda>t. (of_nat k - 1) * time_interval < of_int (py_int t)
                            \<and> of_int (py_int t) \<le> of_nat k * time_interval) ts)"
  proof -
    have "[1..<100] ! (k - 1) = k" using assms by (simp add: nth_upt)
    moreover have "k - 1 < length [1..<100::nat]" using assms by simp
    ultimately show ?thesis
      using assms by (simp add: hit_buckets_def ti nth_Cons' del: upt_Suc)
  qed
  also have "\<dots> = length (filter (\<lambda>t. py_int t = int k) ts)"
  proof -
    have "((of_nat k - 1) * time_interval < (of_int (py_int t) :: rat)
            \<and> of_int (py_int t) \<le> of_nat k * time_interval) = (py_int t = int k)" for t
    proof -
      have a: "((of_nat k :: rat) - 1 < of_int (py_int t)) = (int k - 1 < py_int t)"
        using of_int_less_iff [of "int k - 1" "py_int t", where ?'a = rat] by simp
      have b: "((of_int (py_int t) :: rat) \<le> of_nat k) = (py_int t \<le> int k)"
        using of_int_le_iff [of "py_int t" "int k", where ?'a = rat] by simp
      show ?thesis unfolding time_interval_def using a b by auto
    qed
    then show ?thesis by simp
  qed
  also have "\<dots> = length (filter (in_second k) ts)"
  proof -
    have "(py_int t = int k) = in_second k t" for t
      using py_int_eq_pos [of "int k" t] assms(1) by (simp add: in_second_def)
    then show ?thesis by simp
  qed
  finally show ?thesis .
qed

lemma hit_buckets_first_lower:
  "length (filter (in_second 0) ts) \<le> hit_buckets ts ! 0"
proof -
  have "in_second 0 t \<Longrightarrow> 0 \<le> py_int t \<and> py_int t \<le> 1" for t
    using py_int_unit_interval [of t] by (simp add: in_second_def)
  then have "length (filter (in_second 0) ts)
      \<le> length (filter (\<lambda>t. 0 \<le> py_int t \<and> py_int t \<le> 1) ts)"
    by (induction ts) auto
  then show ?thesis by (simp add: hit_buckets_first)
qed

lemma hit_buckets_horizon: "hit_buckets (filter (\<lambda>t. t < 100) ts) = hit_buckets ts"
proof (rule nth_equalityI)
  show "length (hit_buckets (filter (\<lambda>t. t < 100) ts)) = length (hit_buckets ts)"
    by (simp add: length_hit_buckets)
next
  fix k assume "k < length (hit_buckets (filter (\<lambda>t. t < 100) ts))"
  then have k: "k < 100" by (simp add: length_hit_buckets)
  show "hit_buckets (filter (\<lambda>t. t < 100) ts) ! k = hit_buckets ts ! k"
  proof (cases "k = 0")
    case True
    have "(0 \<le> py_int t \<and> py_int t \<le> 1) \<Longrightarrow> t < 100" for t
    proof (rule ccontr)
      assume p: "0 \<le> py_int t \<and> py_int t \<le> 1" and "\<not> t < 100"
      then have "100 \<le> t" by simp
      then have "100 \<le> \<lfloor>t\<rfloor>" "0 \<le> t" by (simp_all add: le_floor_iff)
      then show False using p by (simp add: py_int_def)
    qed
    then have "filter (\<lambda>t. 0 \<le> py_int t \<and> py_int t \<le> 1) (filter (\<lambda>t. t < 100) ts)
        = filter (\<lambda>t. 0 \<le> py_int t \<and> py_int t \<le> 1) ts"
      by (auto intro: filter_cong)
    then show ?thesis using True by (simp only: hit_buckets_first)
  next
    case False
    then have k1: "1 \<le> k" by simp
    have "in_second k t \<Longrightarrow> t < 100" for t
    proof -
      assume "in_second k t"
      then have "t < of_nat k + 1" by (simp add: in_second_def)
      moreover have "(of_nat k :: rat) + 1 \<le> 100"
        using k of_nat_le_iff [of "k + 1" 100, where ?'a = rat] by simp
      ultimately show ?thesis by linarith
    qed
    then have "filter (in_second k) (filter (\<lambda>t. t < 100) ts) = filter (in_second k) ts"
      by (auto intro: filter_cong)
    then show ?thesis by (simp only: hit_buckets_nth [OF k1 k])
  qed
qed

lemma py_int_first: "(0 \<le> py_int t \<and> py_int t \<le> 1) = (- 1 < t \<and> t < 2)"
proof (cases "0 \<le> t")
  case True
  have "(\<lfloor>t\<rfloor> \<le> 1) = (t < 2)"
    using floor_less_iff [of t 2] by simp
  then show ?thesis using True by (simp add: py_int_def)
next
  case False
  have "(0 \<le> \<lceil>t\<rceil>) = (- 1 < t)"
    using le_ceiling_iff [of 0 t] by simp
  moreover have "\<lceil>t\<rceil> \<le> 1" using False by (simp add: ceiling_le_iff)
  ultimately show ?thesis using False by (simp add: py_int_def)
qed

lemma hit_buckets_first_exact:
  "hit_buckets ts ! 0 = length (filter (\<lambda>t. - 1 < t \<and> t < 2) ts)"
  by (simp add: hit_buckets_first py_int_first)

lemma slow_gun_times_far: "gun_hit_times slow_gun 102 = Some (Inr [51, 101])"
  by code_simp

text \<open>
  Claim C1, as amended. When the run of \<^verbatim>\<open>_gun_hit_sequence\<close> ends with the recorded hit
  times \<open>ts\<close>, the result is a list of exactly 100 counts; for \<open>k\<close> from 1 to 99, entry
  \<open>k\<close> counts exactly the recorded hits \<open>t\<close> with \<open>k \<le> t < k + 1\<close> (those whose
  \<^verbatim>\<open>int(t)\<close> is \<open>k\<close>); entry 0 counts every recorded hit with \<open>0 \<le> t < 1\<close>, and is
  exactly the number of recorded hits with \<open>-1 < t < 2\<close> (those whose \<^verbatim>\<open>int(t)\<close> is 0
  or 1); and the recorded hits at 100 seconds or later have no part in the result.
\<close>

theorem gun_hit_sequence_buckets:
  assumes "gun_hit_times w distance = Some (Inr ts)"
  shows "\<exists>bs. gun_hit_sequence w distance = Some (Inr bs)
           \<and> length bs = 100
           \<and> (\<forall>k. 1 \<le> k \<and> k < 100 \<longrightarrow> bs ! k = length (filter (in_second k) ts))
           \<and> length (filter (in_second 0) ts) \<le> bs ! 0
           \<and> bs ! 0 = length (filter (\<lambda>t. - 1 < t \<and> t < 2) ts)
           \<and> bs = hit_buckets (filter (\<lambda>t. t < 100) ts)"
proof -
  have "gun_hit_sequence w distance = Some (Inr (hit_buckets ts))"
    using assms by (simp add: gun_hit_sequence_def)
  moreover have "length (hit_buckets ts) = 100" by (rule length_hit_buckets)
  moreover have "\<forall>k. 1 \<le> k \<and> k < 100 \<longrightarrow>
      hit_buckets ts ! k = length (filter (in_second k) ts)"
    using hit_buckets_nth by blast
  moreover have "length (filter (in_second 0) ts) \<le> hit_buckets ts ! 0"
    by (rule hit_buckets_first_lower)
  moreover have "hit_buckets ts ! 0 = length (filter (\<lambda>t. - 1 < t \<and> t < 2) ts)"
    by (rule hit_buckets_first_exact)
  moreover have "hit_buckets ts = hit_buckets (filter (\<lambda>t. t < 100) ts)"
    by (rule hit_buckets_horizon [symmetric])
  ultimately show ?thesis by blast
qed

theorem gun_hit_sequence_buckets_witness:
  "gun_hit_times slow_gun 102 = Some (Inr [51, 101])
   \<and> (\<exists>bs. gun_hit_sequence slow_gun 102 = Some (Inr bs) \<and> length bs = 100
          \<and> bs ! 0 = 0 \<and> bs ! 50 = 0 \<and> bs ! 51 = 1 \<and> bs ! 99 = 0)"
proof -
  from gun_hit_sequence_buckets [OF slow_gun_times_far]
  obtain bs where b: "gun_hit_sequence slow_gun 102 = Some (Inr bs)" "length bs = 100"
      "\<forall>k. 1 \<le> k \<and> k < 100 \<longrightarrow> bs ! k = length (filter (in_second k) [51, 101])"
      "bs ! 0 = length (filter (\<lambda>t. - 1 < t \<and> t < 2) [51, 101 :: rat])"
    by blast
  have "bs ! 50 = 0" "bs ! 51 = 1" "bs ! 99 = 0"
    using b(3) [rule_format, of 50] b(3) [rule_format, of 51] b(3) [rule_format, of 99]
    by (simp_all add: in_second_def)
  moreover have "bs ! 0 = 0" using b(4) by simp
  ultimately show ?thesis using slow_gun_times_far b(1,2) by blast
qed

text \<open>
  Claim C1 as stated fails on the gun that fires at 0 and at 50 seconds with a travel time
  of 51 seconds, where every number of the run is an integer. The hit at 51 is counted in
  entry 51, where the claim counts it in entry 50, the hits in (50, 51]; and the hit at
  101 is counted in no entry, so the two recorded hits give counts that add up to 1. The
  first entry is 0 here: no hit falls before second 2.
\<close>

theorem gun_hit_sequence_buckets_counterexample:
  "Weapon slow_gun_data = Inr slow_gun \<and> mode slow_gun = Some GUN
   \<and> gun_hit_times slow_gun 102 = Some (Inr [51, 101])
   \<and> gun_hit_sequence slow_gun 102 = Some (Inr (hit_buckets [51, 101]))
   \<and> hit_buckets [51, 101] ! 51 = 1 \<and> spec_hit_buckets [51, 101] ! 51 = 0
   \<and> hit_buckets [51, 101] ! 50 = 0 \<and> spec_hit_buckets [51, 101] ! 50 = 1
   \<and> hit_buckets [51, 101] ! 0 = 0
   \<and> sum_list (hit_buckets [51, 101]) = 1 \<and> length [51, 101 :: rat] = 2"
proof -
  have m: "mode slow_gun = Some GUN" by (simp add: slow_gun_def)
  have a: "gun_hit_sequence slow_gun 102 = Some (Inr (hit_buckets [51, 101]))"
    using slow_gun_times_far by (simp add: gun_hit_sequence_def)
  have b: "hit_buckets [51, 101] ! 51 = 1" by code_simp
  have c: "spec_hit_buckets [51, 101] ! 51 = 0" by code_simp
  have d: "hit_buckets [51, 101] ! 50 = 0" by code_simp
  have e: "spec_hit_buckets [51, 101] ! 50 = 1" by code_simp
  have f: "hit_buckets [51, 101] ! 0 = 0" by code_simp
  have g: "sum_list (hit_buckets [51, 101]) = 1" by code_simp
  show ?thesis using Weapon_slow_gun m slow_gun_times_far a b c d e f g by simp
qed

text \<open>
  Apart from the bounds of the seconds, the first entry takes the hits of second 1 a
  second time: with a travel time of 1.5 seconds the hit at 1.5 is counted in entry 0 and
  in entry 1, and the two recorded hits give counts that add up to 3.
\<close>

lemma first_entry_counts_second_1:
  "gun_hit_times slow_gun 3 = Some (Inr [3/2, 103/2])
   \<and> gun_hit_sequence slow_gun 3 = Some (Inr (hit_buckets [3/2, 103/2]))
   \<and> hit_buckets [3/2, 103/2] ! 0 = 1
   \<and> hit_buckets [3/2, 103/2] ! 1 = 1
   \<and> sum_list (hit_buckets [3/2, 103/2]) = 3 \<and> length [3/2, 103/2 :: rat] = 2"
proof -
  have a: "gun_hit_sequence slow_gun 3 = Some (Inr (hit_buckets [3/2, 103/2]))"
    using slow_gun_times by (simp add: gun_hit_sequence_def)
  have b: "hit_buckets [3/2, 103/2] ! 0 = 1" by code_simp
  have d: "hit_buckets [3/2, 103/2] ! 1 = 1" by code_simp
  have e: "sum_list (hit_buckets [3/2, 103/2]) = 3" by code_simp
  show ?thesis using slow_gun_times a b d e by simp
qed

subsection \<open>The mode of a weapon\<close>

lemma determine_mode_cases:
  "determine_mode data = Inr m \<Longrightarrow>
   m = Some GUN \<or> m = Some BURST_BEAM \<or> m = Some CONTINUOUS_BEAM \<or> m = None"
  by (auto simp: determine_mode_def bind_err_def truthy_def split: sum.splits if_splits)

text \<open>
  Claim C6, on the code. No record gets the mode MISSILE: the test of the type is true
  for every type, so every projectile is a GUN, the record of a missile too. A record
  whose \<^verbatim>\<open>specClass\<close> is neither \<^verbatim>\<open>"projectile"\<close> nor \<^verbatim>\<open>"BEAM"\<close>, as the beam of
  \<^verbatim>\<open>test_hit_sequence\<close>, is accepted with the mode \<^verbatim>\<open>None\<close>. For a \<^verbatim>\<open>"BEAM"\<close> the entry
  \<^verbatim>\<open>damage/shot\<close> must be there (\<^verbatim>\<open>KeyError\<close> without it) and its value is looked up
  as a key: with a number for the damage the mode is CONTINUOUS_BEAM.
\<close>

theorem mode_never_missile:
  "determine_mode data \<noteq> Inr (Some MISSILE)
   \<and> map_sum id mode (Weapon missile_data) = Inr (Some GUN)
   \<and> map_sum id mode (Weapon beam_data) = Inr None
   \<and> map_sum id mode (Weapon (beam_data(''specClass'' \<mapsto> Str ''BEAM''))) = Inl KeyError
   \<and> map_sum id mode
        (Weapon (beam_data(''specClass'' \<mapsto> Str ''BEAM'', ''damage/shot'' \<mapsto> Num 100)))
       = Inr (Some CONTINUOUS_BEAM)
   \<and> map_sum id mode
        (Weapon (beam_data(''specClass'' \<mapsto> Str ''BEAM'', ''damage/shot'' \<mapsto> Str ''ammo'')))
       = Inr (Some BURST_BEAM)"
proof -
  have a: "determine_mode data \<noteq> Inr (Some MISSILE)"
    using determine_mode_cases [of data "Some MISSILE"] by auto
  note defs = Weapon_def num_item_def num_item_or_def determine_mode_def get_item_def
    bind_err_def truthy_def mode_is_BEAM_def val_in_def Let_def
  have b: "map_sum id mode (Weapon missile_data) = Inr (Some GUN)"
    by (simp add: missile_data_def slow_gun_data_def defs)
  have c: "map_sum id mode (Weapon beam_data) = Inr None"
    by (simp add: beam_data_def defs)
  have d: "map_sum id mode (Weapon (beam_data(''specClass'' \<mapsto> Str ''BEAM''))) = Inl KeyError"
    by (simp add: beam_data_def defs)
  have e: "map_sum id mode
        (Weapon (beam_data(''specClass'' \<mapsto> Str ''BEAM'', ''damage/shot'' \<mapsto> Num 100)))
       = Inr (Some CONTINUOUS_BEAM)"
    by (simp add: beam_data_def defs)
  have f: "map_sum id mode
        (Weapon (beam_data(''specClass'' \<mapsto> Str ''BEAM'', ''damage/shot'' \<mapsto> Str ''ammo'')))
       = Inr (Some BURST_BEAM)"
    by (simp add: beam_data_def defs)
  show ?thesis using a b c d e f by simp
qed

subsection \<open>Bursts with a delay\<close>

text \<open>
  With a burst delay other than 0 the first shot of a run that has ammunition raises
  \<^verbatim>\<open>UnboundLocalError\<close>: the run of such a weapon returns no hit sequence.
\<close>

lemma successive_shots_raise:
  "cur_ammo (tracker st) \<noteq> Finite 0 \<Longrightarrow> successive_shots (Suc n) st = Inl UnboundLocalError"
  by simp

lemma burst_delay_raises:
  "gun_hit_sequence (slow_gun\<lparr>burst_delay := 1\<rparr>) 3 = Some (Inl UnboundLocalError)"
  by code_simp

end
